theory Spec2Isabelle
  imports Main "HOL-Library.AList" "HOL-Library.Char_ord" "HOL-Library.List_Lexorder"
begin

section \<open>Data model of validate-members.py\<close>

text \<open>
  The script reads \<^verbatim>\<open>feeds.json\<close>, a list of feed objects, and checks the \<^verbatim>\<open>nick\<close> of
  every feed against the participants of the Launchpad team \<^verbatim>\<open>ubuntumembers\<close>.

  A value read by \<^verbatim>\<open>json.load\<close> is a \<open>json\<close>; a feed is a Python dict, which keeps the
  order of its keys, so it is an association list. Numbers with a fraction are not
  represented: the script never computes with a number, and a fraction behaves here as an
  integer does (false when zero, without a method \<^verbatim>\<open>lower\<close>). A string is a list of
  code points below 256.
\<close>

datatype json =
    JNull
  | JBool bool
  | JInt int
  | JStr string
  | JArr "json list"
  | JObj "(string \<times> json) list"

type_synonym feed = "(string \<times> json) list"

text \<open>The exceptions that can leave a function of the script.\<close>

datatype error =
    AttributeError
  | TypeError
  | KeyError string
  | FetchError
  | LoadError
  | WriteError
  | UnicodeEncodeError

definition FEEDS_FILE :: string where
  "FEEDS_FILE = ''feeds.json''"

definition PR_BODY_FILE :: string where
  "PR_BODY_FILE = ''pr-body.md''"

definition ALLOWED_NICKS :: "string set" where
  "ALLOWED_NICKS = {''uwn''}"

text \<open>
  \<^verbatim>\<open>str.lower\<close> on code points below 256: the capital letters are A to Z (65 to 90) and
  the accented capitals 192 to 222 without the multiplication sign 215; each has its small
  letter 32 places further.
\<close>

definition lower_char :: "char \<Rightarrow> char" where
  "lower_char c =
     (let n = (of_char c :: nat)
      in if (65 \<le> n \<and> n \<le> 90) \<or> (192 \<le> n \<and> n \<le> 222 \<and> n \<noteq> 215)
         then char_of (n + 32) else c)"

definition lower :: "string \<Rightarrow> string" where
  "lower s = map lower_char s"

text \<open>Python's truth value of a JSON value, as \<^verbatim>\<open>if nick and ...\<close> tests it.\<close>

fun truthy :: "json \<Rightarrow> bool" where
  "truthy JNull = False"
| "truthy (JBool b) = b"
| "truthy (JInt i) = (i \<noteq> 0)"
| "truthy (JStr s) = (s \<noteq> [])"
| "truthy (JArr xs) = (xs \<noteq> [])"
| "truthy (JObj kvs) = (kvs \<noteq> [])"

text \<open>\<^verbatim>\<open>feed.get(key, default)\<close>.\<close>

definition feed_get :: "feed \<Rightarrow> string \<Rightarrow> json \<Rightarrow> json" where
  "feed_get feed k d = (case map_of feed k of Some v \<Rightarrow> v | None \<Rightarrow> d)"

text \<open>\<^verbatim>\<open>entry[key]\<close>, which raises \<^verbatim>\<open>KeyError\<close> on a missing key.\<close>

definition feed_item :: "feed \<Rightarrow> string \<Rightarrow> error + json" where
  "feed_item feed k = (case map_of feed k of Some v \<Rightarrow> Inr v | None \<Rightarrow> Inl (KeyError k))"

section \<open>get_unique_nicks\<close>

text \<open>
  One round of the loop of \<^verbatim>\<open>get_unique_nicks\<close>. A nick that is false in Python is skipped
  before \<^verbatim>\<open>nick.lower()\<close> is evaluated; a true value that is no string has no method
  \<^verbatim>\<open>lower\<close> and raises \<^verbatim>\<open>AttributeError\<close>.
\<close>

definition get_unique_nicks_step :: "string set \<Rightarrow> feed \<Rightarrow> error + string set" where
  "get_unique_nicks_step nicks feed =
     (let nick = feed_get feed ''nick'' (JStr '''')
      in if \<not> truthy nick then Inr nicks
         else (case nick of
                 JStr s \<Rightarrow>
                   if lower s \<notin> lower ` ALLOWED_NICKS then Inr (insert s nicks) else Inr nicks
               | _ \<Rightarrow> Inl AttributeError))"

fun get_unique_nicks_loop :: "string set \<Rightarrow> feed list \<Rightarrow> error + string set" where
  "get_unique_nicks_loop nicks [] = Inr nicks"
| "get_unique_nicks_loop nicks (feed # feeds) =
     (case get_unique_nicks_step nicks feed of
        Inl e \<Rightarrow> Inl e
      | Inr nicks' \<Rightarrow> get_unique_nicks_loop nicks' feeds)"

definition get_unique_nicks :: "feed list \<Rightarrow> error + string set" where
  "get_unique_nicks feeds = get_unique_nicks_loop {} feeds"

section \<open>The Launchpad client\<close>

text \<open>
  What \<^verbatim>\<open>launchpad.people[nick]\<close> does: it returns a person, raises \<^verbatim>\<open>KeyError\<close>, or
  raises another exception. The service may answer the same question differently from one
  request to the next, so the answer depends on the number of lookups made before.

  \<open>participants\<close> is what iterating over \<^verbatim>\<open>team.participants\<close> of the team
  \<^verbatim>\<open>ubuntumembers\<close> yields, every person given by its \<^verbatim>\<open>name\<close>; it is \<open>None\<close> when
  fetching raises. \<open>direct_members\<close> and \<open>sub_teams\<close> are the state of the service that this
  answer comes from: the persons and the teams enrolled in a team.
\<close>

datatype lookup_result = Found | NotFound | ApiError

record launchpad =
  direct_members :: "string \<Rightarrow> string list"
  sub_teams :: "string \<Rightarrow> string list"
  participants :: "string list option"
  people :: "nat \<Rightarrow> string \<Rightarrow> lookup_result"

definition TEAM :: string where
  "TEAM = ''ubuntumembers''"

text \<open>
  The loop of \<^verbatim>\<open>get_ubuntu_members\<close> adds \<^verbatim>\<open>person.name\<close> of every participant to a set,
  as it is.
\<close>

fun add_participants :: "string set \<Rightarrow> string list \<Rightarrow> string set" where
  "add_participants members [] = members"
| "add_participants members (person_name # persons) =
     add_participants (insert person_name members) persons"

definition get_ubuntu_members :: "launchpad \<Rightarrow> error + string set" where
  "get_ubuntu_members lp =
     (case participants lp of
        None \<Rightarrow> Inl FetchError
      | Some persons \<Rightarrow> Inr (add_participants {} persons))"

text \<open>
  \<^verbatim>\<open>check_user_exists\<close> returns \<^verbatim>\<open>True\<close>, \<^verbatim>\<open>False\<close> or \<^verbatim>\<open>None\<close> as its first component
  (the person itself is only printed). The second argument is the list of the lookups made
  so far; the call adds its own.
\<close>

definition check_user_exists ::
  "launchpad \<Rightarrow> string list \<Rightarrow> string \<Rightarrow> bool option \<times> string list" where
  "check_user_exists lp calls nick =
     (case people lp (length calls) nick of
        Found \<Rightarrow> (Some True, calls @ [nick])
      | NotFound \<Rightarrow> (Some False, calls @ [nick])
      | ApiError \<Rightarrow> (None, calls @ [nick]))"

text \<open>\<^verbatim>\<open>check_single_nick\<close>, the classification of one nick in the mode \<^verbatim>\<open>--check\<close>.\<close>

definition check_single_nick ::
  "launchpad \<Rightarrow> string list \<Rightarrow> string \<Rightarrow> string set \<Rightarrow> string \<times> string list" where
  "check_single_nick lp calls nick ubuntu_members =
     (let lp_nick = lower nick
      in if lp_nick \<in> ubuntu_members then (''member'', calls)
         else (case check_user_exists lp calls lp_nick of
                 (None, calls') \<Rightarrow> (''error'', calls')
               | (Some False, calls') \<Rightarrow> (''not_found'', calls')
               | (Some True, calls') \<Rightarrow> (''not_member'', calls')))"

section \<open>validate_memberships\<close>

text \<open>The three sets that the first loop of \<^verbatim>\<open>validate_memberships\<close> fills, and the lookups.\<close>

record categories =
  non_member_nicks :: "string set"
  not_found_nicks :: "string set"
  error_nicks :: "string set"
  lookups :: "string list"

definition no_categories :: categories where
  "no_categories =
     \<lparr>non_member_nicks = {}, not_found_nicks = {}, error_nicks = {}, lookups = []\<rparr>"

definition categorize_step :: "launchpad \<Rightarrow> string set \<Rightarrow> categories \<Rightarrow> string \<Rightarrow> categories" where
  "categorize_step lp ubuntu_members st nick =
     (let lp_nick = lower nick
      in if lp_nick \<in> ubuntu_members then st
         else (case check_user_exists lp (lookups st) lp_nick of
                 (None, calls') \<Rightarrow>
                   st\<lparr>error_nicks := insert nick (error_nicks st), lookups := calls'\<rparr>
               | (Some True, calls') \<Rightarrow>
                   st\<lparr>non_member_nicks := insert nick (non_member_nicks st), lookups := calls'\<rparr>
               | (Some False, calls') \<Rightarrow>
                   st\<lparr>not_found_nicks := insert nick (not_found_nicks st), lookups := calls'\<rparr>))"

text \<open>\<^verbatim>\<open>for nick in sorted(nicks_to_check)\<close>: strings are compared code point by code point.\<close>

definition categorize :: "launchpad \<Rightarrow> string set \<Rightarrow> string set \<Rightarrow> categories" where
  "categorize lp ubuntu_members nicks_to_check =
     foldl (categorize_step lp ubuntu_members) no_categories (sorted_list_of_set nicks_to_check)"

text \<open>
  The second loop. \<^verbatim>\<open>nick in invalid_nicks\<close> hashes the nick, so a list or an object
  raises \<^verbatim>\<open>TypeError\<close>; any other value that is no string is in no set of strings.
  \<^verbatim>\<open>{**feed, "reason": r}\<close> replaces the value of an existing key \<^verbatim>\<open>reason\<close> where it
  stands and appends the key otherwise.
\<close>

definition filter_step ::
  "categories \<Rightarrow> feed list \<times> feed list \<Rightarrow> feed \<Rightarrow> error + feed list \<times> feed list" where
  "filter_step st acc feed =
     (let invalid_nicks = non_member_nicks st \<union> not_found_nicks st
      in case feed_get feed ''nick'' (JStr '''') of
           JArr _ \<Rightarrow> Inl TypeError
         | JObj _ \<Rightarrow> Inl TypeError
         | JStr nick \<Rightarrow>
             if nick \<in> invalid_nicks
             then Inr (fst acc,
                       snd acc @ [AList.update ''reason''
                         (JStr (if nick \<in> not_found_nicks st then ''not_found'' else ''not_member''))
                         feed])
             else Inr (fst acc @ [feed], snd acc)
         | _ \<Rightarrow> Inr (fst acc @ [feed], snd acc))"

fun filter_feeds ::
  "categories \<Rightarrow> feed list \<times> feed list \<Rightarrow> feed list \<Rightarrow> error + feed list \<times> feed list" where
  "filter_feeds st acc [] = Inr acc"
| "filter_feeds st acc (feed # feeds) =
     (case filter_step st acc feed of
        Inl e \<Rightarrow> Inl e
      | Inr acc' \<Rightarrow> filter_feeds st acc' feeds)"

text \<open>
  The result of \<^verbatim>\<open>validate_memberships\<close>: the two lists it returns, and the categories
  (the third component of the Python tuple is \<open>not_found_nicks\<close> of them).
\<close>

record validation =
  valid_feeds :: "feed list"
  removed_entries :: "feed list"
  cats :: categories

definition validate_memberships :: "feed list \<Rightarrow> launchpad \<Rightarrow> error + validation" where
  "validate_memberships feeds lp =
     (case get_unique_nicks feeds of
        Inl e \<Rightarrow> Inl e
      | Inr nicks_to_check \<Rightarrow>
          (case get_ubuntu_members lp of
             Inl e \<Rightarrow> Inl e
           | Inr ubuntu_members \<Rightarrow>
               (let st = categorize lp ubuntu_members nicks_to_check
                in case filter_feeds st ([], []) feeds of
                     Inl e \<Rightarrow> Inl e
                   | Inr (valid, removed) \<Rightarrow>
                       Inr \<lparr>valid_feeds = valid, removed_entries = removed, cats = st\<rparr>)))"

section \<open>Files, the environment and the outputs of a run\<close>

text \<open>
  The world the script acts on. A path names a file; two paths can name the same file
  (\<^verbatim>\<open>feeds.json\<close> and \<^verbatim>\<open>./feeds.json\<close>), so \<open>resolve\<close> gives the file of a path and
  \<open>files\<close> the bytes of every file. \<open>printed_outputs\<close> are the lines
  \<^verbatim>\<open>::set-output name=N::V\<close> printed so far, as pairs. \<open>space_left\<close> is the number of bytes
  the device still accepts (\<open>None\<close>: it never refuses).
\<close>

record world =
  resolve :: "string \<Rightarrow> string"
  files :: "string \<rightharpoonup> string"
  printed_outputs :: "(string \<times> string) list"
  space_left :: "nat option"

text \<open>
  What the run takes from outside the script: the parser and the encoder of the library
  \<^verbatim>\<open>json\<close> (\<open>json_load\<close> decodes and parses the bytes of a file, \<open>json_dump\<close> gives the
  pieces that \<^verbatim>\<open>json.dump\<close> writes one after the other), the codec of the files opened
  with \<^verbatim>\<open>encoding="utf-8"\<close> and the codec of the locale (\<open>None\<close> where Python raises
  \<^verbatim>\<open>UnicodeEncodeError\<close>, as UTF-8 does on a lone surrogate), the text Python prints for a
  value inside an f-string, the environment variable \<^verbatim>\<open>GITHUB_OUTPUT\<close> and the time stamp
  of the report.
\<close>

record env =
  json_load :: "string \<Rightarrow> feed list option"
  json_dump :: "feed list \<Rightarrow> string list"
  utf8 :: "string \<Rightarrow> string option"
  locale_codec :: "string \<Rightarrow> string option"
  py_str :: "json \<Rightarrow> string"
  GITHUB_OUTPUT :: "string option"
  now :: string

record args =
  dry_run :: bool
  check :: "string list"
  verbose :: bool

definition newline :: string where
  "newline = [CHR 0x0A]"

text \<open>\<^verbatim>\<open>open(path, "w")\<close> empties the file at once; \<^verbatim>\<open>open(path, "a")\<close> keeps it.\<close>

definition fs_open_w :: "string \<Rightarrow> world \<Rightarrow> world" where
  "fs_open_w path w = w\<lparr>files := (files w)(resolve w path \<mapsto> [])\<rparr>"

definition fs_open_a :: "string \<Rightarrow> world \<Rightarrow> world" where
  "fs_open_a path w =
     (case files w (resolve w path) of
        None \<Rightarrow> w\<lparr>files := (files w)(resolve w path \<mapsto> [])\<rparr>
      | Some _ \<Rightarrow> w)"

definition file_content :: "world \<Rightarrow> string \<Rightarrow> string" where
  "file_content w path = (case files w (resolve w path) of None \<Rightarrow> [] | Some c \<Rightarrow> c)"

text \<open>
  \<^verbatim>\<open>f.write(s)\<close> encodes \<open>s\<close> at once and raises when the codec refuses it. The bytes go
  to the file as far as the device accepts them. The file object of Python buffers, so the
  error of a full device may surface at a later write, or when the \<^verbatim>\<open>with\<close> block closes
  the file; the exception that leaves the block and the bytes the file holds then are the
  same as when every write reaches the device at once, which is how this function writes:
  all bytes that fit, then the error.
\<close>

definition fs_write ::
  "(string \<Rightarrow> string option) \<Rightarrow> string \<Rightarrow> string \<Rightarrow> world \<Rightarrow> (error + unit) \<times> world" where
  "fs_write codec path s w =
     (case codec s of
        None \<Rightarrow> (Inl UnicodeEncodeError, w)
      | Some bytes \<Rightarrow>
          (case space_left w of
             None \<Rightarrow>
               (Inr (), w\<lparr>files := (files w)(resolve w path \<mapsto> file_content w path @ bytes)\<rparr>)
           | Some k \<Rightarrow>
               if length bytes \<le> k
               then (Inr (),
                     w\<lparr>files := (files w)(resolve w path \<mapsto> file_content w path @ bytes),
                       space_left := Some (k - length bytes)\<rparr>)
               else (Inl WriteError,
                     w\<lparr>files := (files w)(resolve w path \<mapsto> file_content w path @ take k bytes),
                       space_left := Some 0\<rparr>)))"

fun fs_write_all ::
  "(string \<Rightarrow> string option) \<Rightarrow> string \<Rightarrow> string list \<Rightarrow> world \<Rightarrow> (error + unit) \<times> world" where
  "fs_write_all codec path [] w = (Inr (), w)"
| "fs_write_all codec path (chunk # chunks) w =
     (case fs_write codec path chunk w of
        (Inl e, w') \<Rightarrow> (Inl e, w')
      | (Inr _, w') \<Rightarrow> fs_write_all codec path chunks w')"

section \<open>load_feeds and save_feeds\<close>

definition load_feeds :: "env \<Rightarrow> world \<Rightarrow> error + feed list" where
  "load_feeds e w =
     (case files w (resolve w FEEDS_FILE) of
        None \<Rightarrow> Inl LoadError
      | Some bytes \<Rightarrow>
          (case json_load e bytes of
             None \<Rightarrow> Inl LoadError
           | Some feeds \<Rightarrow> Inr feeds))"

text \<open>
  \<^verbatim>\<open>save_feeds\<close> opens the data file itself for writing, lets \<^verbatim>\<open>json.dump\<close> write its
  pieces and then writes the final newline.
\<close>

definition save_feeds :: "env \<Rightarrow> feed list \<Rightarrow> world \<Rightarrow> (error + unit) \<times> world" where
  "save_feeds e feeds w =
     (case fs_write_all (utf8 e) FEEDS_FILE (json_dump e feeds) (fs_open_w FEEDS_FILE w) of
        (Inl err, w') \<Rightarrow> (Inl err, w')
      | (Inr _, w') \<Rightarrow> fs_write (utf8 e) FEEDS_FILE newline w')"

section \<open>generate_pr_body and set_github_output\<close>

fun join_lines :: "string list \<Rightarrow> string" where
  "join_lines [] = []"
| "join_lines [l] = l"
| "join_lines (l # ls) = l @ newline @ join_lines ls"

definition pr_row :: "env \<Rightarrow> feed \<Rightarrow> error + string" where
  "pr_row e entry =
     (case feed_item entry ''nick'' of Inl err \<Rightarrow> Inl err | Inr nick \<Rightarrow>
     (case feed_item entry ''name'' of Inl err \<Rightarrow> Inl err | Inr name \<Rightarrow>
     (case feed_item entry ''url'' of Inl err \<Rightarrow> Inl err | Inr url \<Rightarrow>
     (case feed_item entry ''reason'' of Inl err \<Rightarrow> Inl err | Inr r \<Rightarrow>
        (let reason = (if r = JStr ''not_found'' then ''User not found'' else ''Not a member'')
         in Inr (''| '' @ py_str e name @ '' | '' @ py_str e nick @ '' | '' @ reason
                 @ '' | '' @ py_str e url @ '' |''))))))"

fun pr_rows :: "env \<Rightarrow> feed list \<Rightarrow> error + string list" where
  "pr_rows e [] = Inr []"
| "pr_rows e (entry # entries) =
     (case pr_row e entry of Inl err \<Rightarrow> Inl err | Inr row \<Rightarrow>
     (case pr_rows e entries of Inl err \<Rightarrow> Inl err | Inr rows \<Rightarrow> Inr (row # rows)))"

definition generate_pr_body :: "env \<Rightarrow> feed list \<Rightarrow> string set \<Rightarrow> error + string" where
  "generate_pr_body e removed not_found =
     (case pr_rows e removed of
        Inl err \<Rightarrow> Inl err
      | Inr rows \<Rightarrow>
          Inr (join_lines
            ([''## Feeds Removed'',
              [],
              ''The following feeds have been removed because the associated'',
              ''Launchpad user is no longer an Ubuntu Member or was not found:'',
              [],
              ''| Name | Nick | Reason | Feed URL |'',
              ''|------|------|--------|----------|'']
             @ rows
             @ [[],
                ''---'',
                ''Validated against [~ubuntumembers](https://launchpad.net/~ubuntumembers) on ''
                  @ now e])))"

text \<open>
  \<^verbatim>\<open>set_github_output\<close> appends \<^verbatim>\<open>name=value\<close> to the file named by \<^verbatim>\<open>GITHUB_OUTPUT\<close> when
  that variable is set and not empty (the file is opened without an encoding, so with the
  codec of the locale), and then prints the line for local runs.
\<close>

definition set_github_output :: "env \<Rightarrow> string \<Rightarrow> string \<Rightarrow> world \<Rightarrow> (error + unit) \<times> world" where
  "set_github_output e name v w =
     (case (case GITHUB_OUTPUT e of
              None \<Rightarrow> (Inr (), w)
            | Some path \<Rightarrow>
                if path = [] then (Inr (), w)
                else fs_write (locale_codec e) path (name @ ''='' @ v @ newline)
                       (fs_open_a path w)) of
        (Inl err, w') \<Rightarrow> (Inl err, w')
      | (Inr _, w') \<Rightarrow> (Inr (), w'\<lparr>printed_outputs := printed_outputs w' @ [(name, v)]\<rparr>))"

section \<open>main\<close>

text \<open>
  \<^verbatim>\<open>main\<close> takes the parsed command line, the environment, the Launchpad client (the
  anonymous login is taken as done) and the world, and returns the exit status or the
  exception that ends the run, with the world as the run leaves it. What the script prints
  for the reader is left out, so \<^verbatim>\<open>--verbose\<close> changes nothing here; only the lines
  \<^verbatim>\<open>::set-output\<close> are kept.
\<close>

text \<open>
  The loop of \<^verbatim>\<open>main\<close> that prints the feeds to remove reads \<^verbatim>\<open>reason\<close>, \<^verbatim>\<open>name\<close> and
  \<^verbatim>\<open>nick\<close> of every entry, in this order, and stops at the first missing key.
\<close>

fun print_removed :: "feed list \<Rightarrow> error + unit" where
  "print_removed [] = Inr ()"
| "print_removed (entry # entries) =
     (case feed_item entry ''reason'' of Inl err \<Rightarrow> Inl err | Inr _ \<Rightarrow>
     (case feed_item entry ''name'' of Inl err \<Rightarrow> Inl err | Inr _ \<Rightarrow>
     (case feed_item entry ''nick'' of Inl err \<Rightarrow> Inl err | Inr _ \<Rightarrow>
        print_removed entries)))"

text \<open>The mode \<^verbatim>\<open>--check\<close>: every nick given is classified and its status printed.\<close>

fun check_nicks :: "launchpad \<Rightarrow> string list \<Rightarrow> string set \<Rightarrow> string list \<Rightarrow> string list" where
  "check_nicks lp calls ubuntu_members [] = []"
| "check_nicks lp calls ubuntu_members (nick # nicks) =
     (case check_single_nick lp calls nick ubuntu_members of
        (status, calls') \<Rightarrow> status # check_nicks lp calls' ubuntu_members nicks)"

definition finish :: "(error + unit) \<times> world \<Rightarrow> (error + int) \<times> world" where
  "finish r = (case r of (Inl err, w) \<Rightarrow> (Inl err, w) | (Inr _, w) \<Rightarrow> (Inr 0, w))"

definition main :: "args \<Rightarrow> env \<Rightarrow> launchpad \<Rightarrow> world \<Rightarrow> (error + int) \<times> world" where
  "main a e lp w =
     (if check a \<noteq> [] then
        (case get_ubuntu_members lp of
           Inl err \<Rightarrow> (Inl err, w)
         | Inr ubuntu_members \<Rightarrow>
             (case check_nicks lp [] ubuntu_members (check a) of _ \<Rightarrow> (Inr 0, w)))
      else
        (case load_feeds e w of
           Inl err \<Rightarrow> (Inl err, w)
         | Inr feeds \<Rightarrow>
        (case validate_memberships feeds lp of
           Inl err \<Rightarrow> (Inl err, w)
         | Inr v \<Rightarrow>
             if removed_entries v = [] then
               finish (set_github_output e ''has_changes'' ''false'' w)
             else
               (case print_removed (removed_entries v) of
                  Inl err \<Rightarrow> (Inl err, w)
                | Inr _ \<Rightarrow>
                    if dry_run a then
                      finish (set_github_output e ''has_changes'' ''false'' w)
                    else
                      (case save_feeds e (valid_feeds v) w of
                         (Inl err, w1) \<Rightarrow> (Inl err, w1)
                       | (Inr _, w1) \<Rightarrow>
                      (case generate_pr_body e (removed_entries v) (not_found_nicks (cats v)) of
                         Inl err \<Rightarrow> (Inl err, w1)
                       | Inr pr_body \<Rightarrow>
                      (case fs_write (utf8 e) PR_BODY_FILE pr_body (fs_open_w PR_BODY_FILE w1) of
                         (Inl err, w2) \<Rightarrow> (Inl err, w2)
                       | (Inr _, w2) \<Rightarrow>
                           finish (set_github_output e ''has_changes'' ''true'' w2))))))))"

section \<open>The outcome of a nick in a run\<close>

abbreviation nick_of :: "feed \<Rightarrow> json" where
  "nick_of feed \<equiv> feed_get feed ''nick'' (JStr '''')"

text \<open>
  The loop of \<^verbatim>\<open>validate_memberships\<close> takes the nicks in sorted order, so the lookups made
  before it reaches the nick \<open>n\<close> are those of the smaller nicks that are no members.
\<close>

definition lookups_before :: "string set \<Rightarrow> string set \<Rightarrow> string \<Rightarrow> string list" where
  "lookups_before ubuntu_members nicks n =
     map lower (filter (\<lambda>m. m < n \<and> lower m \<notin> ubuntu_members) (sorted_list_of_set nicks))"

text \<open>
  The outcome of a nick in a run is what \<^verbatim>\<open>check_single_nick\<close> answers for it at the moment
  the loop reaches it: \<^verbatim>\<open>member\<close>, \<^verbatim>\<open>not_member\<close>, \<^verbatim>\<open>not_found\<close> or \<^verbatim>\<open>error\<close>. A nick that
  \<^verbatim>\<open>get_unique_nicks\<close> has left out is never classified and has no outcome.
\<close>

definition outcome :: "launchpad \<Rightarrow> string set \<Rightarrow> string set \<Rightarrow> string \<Rightarrow> string option" where
  "outcome lp ubuntu_members nicks n =
     (if n \<in> nicks
      then Some (fst (check_single_nick lp (lookups_before ubuntu_members nicks n) n ubuntu_members))
      else None)"

definition feed_outcome :: "launchpad \<Rightarrow> string set \<Rightarrow> string set \<Rightarrow> feed \<Rightarrow> string option" where
  "feed_outcome lp ubuntu_members nicks feed =
     (case nick_of feed of JStr s \<Rightarrow> outcome lp ubuntu_members nicks s | _ \<Rightarrow> None)"

text \<open>The partition as the specification words it: by the outcome, with the outcome as reason.\<close>

definition removable :: "launchpad \<Rightarrow> string set \<Rightarrow> string set \<Rightarrow> feed \<Rightarrow> bool" where
  "removable lp ubuntu_members nicks feed =
     (feed_outcome lp ubuntu_members nicks feed = Some ''not_found''
      \<or> feed_outcome lp ubuntu_members nicks feed = Some ''not_member'')"

definition tagged :: "launchpad \<Rightarrow> string set \<Rightarrow> string set \<Rightarrow> feed \<Rightarrow> feed" where
  "tagged lp ubuntu_members nicks feed =
     AList.update ''reason''
       (JStr (case feed_outcome lp ubuntu_members nicks feed of Some r \<Rightarrow> r | None \<Rightarrow> [])) feed"

text \<open>The partition as the second loop of \<^verbatim>\<open>validate_memberships\<close> computes it.\<close>

definition invalid :: "categories \<Rightarrow> feed \<Rightarrow> bool" where
  "invalid st f =
     (case nick_of f of
        JStr s \<Rightarrow> s \<in> non_member_nicks st \<union> not_found_nicks st
      | _ \<Rightarrow> False)"

definition with_reason :: "categories \<Rightarrow> feed \<Rightarrow> feed" where
  "with_reason st f =
     AList.update ''reason''
       (JStr (case nick_of f of
                JStr s \<Rightarrow> if s \<in> not_found_nicks st then ''not_found'' else ''not_member''
              | _ \<Rightarrow> [])) f"

text \<open>The answer of the service to the lookup made for \<open>n\<close>, in a loop over the list \<open>xs\<close>.\<close>

definition answer_at :: "launchpad \<Rightarrow> string set \<Rightarrow> string list \<Rightarrow> string \<Rightarrow> lookup_result" where
  "answer_at lp M xs n = people lp (length (filter (\<lambda>m. m < n \<and> lower m \<notin> M) xs)) (lower n)"

text \<open>
  The values of \<^verbatim>\<open>nick\<close> on which the two loops do not raise: \<^verbatim>\<open>nick.lower()\<close> needs a
  string unless the value is false, and \<^verbatim>\<open>nick in invalid_nicks\<close> needs a value with a hash.
\<close>

definition lowerable :: "json \<Rightarrow> bool" where
  "lowerable v = (\<not> truthy v \<or> (case v of JStr _ \<Rightarrow> True | _ \<Rightarrow> False))"

definition hashable :: "json \<Rightarrow> bool" where
  "hashable v = (case v of JArr _ \<Rightarrow> False | JObj _ \<Rightarrow> False | _ \<Rightarrow> True)"

section \<open>What a write leaves in a file\<close>

text \<open>
  The pieces that \<^verbatim>\<open>save_feeds\<close> writes: those of \<^verbatim>\<open>json.dump\<close>, then the newline.
\<close>

definition save_output :: "env \<Rightarrow> feed list \<Rightarrow> string list" where
  "save_output e feeds = json_dump e feeds @ [newline]"

text \<open>
  The bytes of a list of pieces: of all of them when the codec accepts every piece, and of
  the pieces before the first one that it refuses.
\<close>

fun encode_all :: "(string \<Rightarrow> string option) \<Rightarrow> string list \<Rightarrow> string option" where
  "encode_all codec [] = Some []"
| "encode_all codec (p # ps) =
     (case codec p of
        None \<Rightarrow> None
      | Some b \<Rightarrow> (case encode_all codec ps of None \<Rightarrow> None | Some bs \<Rightarrow> Some (b @ bs)))"

fun encoded_prefix :: "(string \<Rightarrow> string option) \<Rightarrow> string list \<Rightarrow> string" where
  "encoded_prefix codec [] = []"
| "encoded_prefix codec (p # ps) =
     (case codec p of None \<Rightarrow> [] | Some b \<Rightarrow> b @ encoded_prefix codec ps)"

text \<open>Whether the device accepts all the bytes, and the bytes it accepts.\<close>

definition fits :: "nat option \<Rightarrow> string \<Rightarrow> bool" where
  "fits space bytes = (case space of None \<Rightarrow> True | Some k \<Rightarrow> length bytes \<le> k)"

definition accepted :: "nat option \<Rightarrow> string \<Rightarrow> string" where
  "accepted space bytes = (case space of None \<Rightarrow> bytes | Some k \<Rightarrow> take k bytes)"

text \<open>The file that \<^verbatim>\<open>set_github_output\<close> appends to, if any.\<close>

definition output_file :: "env \<Rightarrow> world \<Rightarrow> string option" where
  "output_file e w =
     (case GITHUB_OUTPUT e of
        None \<Rightarrow> None
      | Some path \<Rightarrow> if path = [] then None else Some (resolve w path))"

section \<open>Members of a team\<close>


section \<open>Concrete runs\<close>

text \<open>
  The scenario of three feeds: alice is a participant of the team, bob exists on Launchpad
  without being one, the lookup of carol raises \<^verbatim>\<open>KeyError\<close>.
\<close>

definition scen_people :: "nat \<Rightarrow> string \<Rightarrow> lookup_result" where
  "scen_people i n = (if n = ''bob'' then Found else if n = ''carol'' then NotFound else ApiError)"

definition scen_direct :: "string \<Rightarrow> string list" where
  "scen_direct t = (if t = TEAM then [''alice''] else [])"

definition no_teams :: "string \<Rightarrow> string list" where
  "no_teams t = []"

definition scen_lp :: launchpad where
  "scen_lp =
     \<lparr>direct_members = scen_direct, sub_teams = no_teams,
      participants = Some [''alice''], people = scen_people\<rparr>"

definition feed_alice :: feed where
  "feed_alice = [(''name'', JStr ''Alice A''), (''nick'', JStr ''alice''), (''url'', JStr ''https://a.example/feed'')]"

definition feed_bob :: feed where
  "feed_bob = [(''name'', JStr ''Bob B''), (''nick'', JStr ''bob''), (''url'', JStr ''https://b.example/feed'')]"

definition feed_carol :: feed where
  "feed_carol = [(''name'', JStr ''Carol C''), (''nick'', JStr ''carol''), (''url'', JStr ''https://c.example/feed'')]"

definition scen_feeds :: "feed list" where
  "scen_feeds = [feed_alice, feed_bob, feed_carol]"

definition scen_result :: validation where
  "scen_result =
     \<lparr>valid_feeds = [feed_alice],
      removed_entries =
        [feed_bob @ [(''reason'', JStr ''not_member'')],
         feed_carol @ [(''reason'', JStr ''not_found'')]],
      cats = \<lparr>non_member_nicks = {''bob''}, not_found_nicks = {''carol''}, error_nicks = {},
              lookups = [''bob'', ''carol'']\<rparr>\<rparr>"

text \<open>
  Stand-ins for the library in the concrete runs. The encoder writes one piece for each
  feed, its nick; the parser reads the two contents that the data file has in these runs:
  the three feeds before a run and alice alone after it. The codecs accept every string
  as it is. Two paths name the same file when they differ by a leading \<^verbatim>\<open>./\<close>.
\<close>

definition scen_load :: "string \<Rightarrow> feed list option" where
  "scen_load bytes =
     (if bytes = ''three feeds'' then Some scen_feeds
      else if bytes = ''alice'' @ newline then Some [feed_alice]
      else None)"

definition scen_piece :: "feed \<Rightarrow> string" where
  "scen_piece f = (case nick_of f of JStr s \<Rightarrow> s | _ \<Rightarrow> [])"

definition scen_dump :: "feed list \<Rightarrow> string list" where
  "scen_dump feeds = map scen_piece feeds"

definition scen_str :: "json \<Rightarrow> string" where
  "scen_str v = (case v of JStr s \<Rightarrow> s | _ \<Rightarrow> [])"

definition plain_codec :: "string \<Rightarrow> string option" where
  "plain_codec s = Some s"

definition scen_resolve :: "string \<Rightarrow> string" where
  "scen_resolve path = (if take 2 path = ''./'' then drop 2 path else path)"

definition scen_env :: env where
  "scen_env =
     \<lparr>json_load = scen_load, json_dump = scen_dump, utf8 = plain_codec,
      locale_codec = plain_codec, py_str = scen_str,
      GITHUB_OUTPUT = None, now = ''2024-01-01 00:00 UTC''\<rparr>"

definition scen_world :: world where
  "scen_world =
     \<lparr>resolve = scen_resolve, files = [FEEDS_FILE \<mapsto> ''three feeds''],
      printed_outputs = [], space_left = None\<rparr>"

definition normal_args :: args where
  "normal_args = \<lparr>dry_run = False, check = [], verbose = False\<rparr>"

definition dry_args :: args where
  "dry_args = \<lparr>dry_run = True, check = [], verbose = False\<rparr>"

text \<open>An environment where \<^verbatim>\<open>GITHUB_OUTPUT\<close> names the data file by another path.\<close>

definition aliased_env :: env where
  "aliased_env =
     \<lparr>json_load = scen_load, json_dump = scen_dump, utf8 = plain_codec,
      locale_codec = plain_codec, py_str = scen_str,
      GITHUB_OUTPUT = Some ''./feeds.json'', now = ''2024-01-01 00:00 UTC''\<rparr>"

text \<open>
  A codec that refuses one piece, as UTF-8 refuses a piece with a lone surrogate (a code
  point that the strings of this theory do not have).
\<close>

definition strict_codec :: "string \<Rightarrow> string option" where
  "strict_codec s = (if s = ''bob'' then None else Some s)"

definition strict_env :: env where
  "strict_env =
     \<lparr>json_load = scen_load, json_dump = scen_dump, utf8 = strict_codec,
      locale_codec = plain_codec, py_str = scen_str,
      GITHUB_OUTPUT = None, now = ''2024-01-01 00:00 UTC''\<rparr>"

text \<open>Two spellings of one nick, and a service whose lookups always raise for it.\<close>

definition feed_Dave :: feed where
  "feed_Dave = [(''name'', JStr ''Dave D''), (''nick'', JStr ''Dave''), (''url'', JStr ''https://d.example/feed'')]"

definition feed_dave :: feed where
  "feed_dave = [(''name'', JStr ''Dave again''), (''nick'', JStr ''dave''), (''url'', JStr ''https://d.example/two'')]"

definition err_feeds :: "feed list" where
  "err_feeds = [feed_alice, feed_Dave, feed_dave]"

definition err_result :: validation where
  "err_result =
     \<lparr>valid_feeds = [feed_alice, feed_Dave, feed_dave],
      removed_entries = [],
      cats = \<lparr>non_member_nicks = {}, not_found_nicks = {}, error_nicks = {''Dave'', ''dave''},
              lookups = [''dave'', ''dave'']\<rparr>\<rparr>"

text \<open>
  Two spellings of one nick, and a service whose first lookup raises and whose later
  lookups find the person.
\<close>

definition flaky_people :: "nat \<Rightarrow> string \<Rightarrow> lookup_result" where
  "flaky_people i n = (if i = 0 then ApiError else Found)"

definition flaky_lp :: launchpad where
  "flaky_lp =
     \<lparr>direct_members = no_teams, sub_teams = no_teams,
      participants = Some [], people = flaky_people\<rparr>"

definition feed_Bob :: feed where
  "feed_Bob = [(''name'', JStr ''Bob B''), (''nick'', JStr ''Bob''), (''url'', JStr ''https://b.example/old'')]"

definition case_feeds :: "feed list" where
  "case_feeds = [feed_Bob, feed_bob]"

definition case_result :: validation where
  "case_result =
     \<lparr>valid_feeds = [feed_Bob],
      removed_entries = [feed_bob @ [(''reason'', JStr ''not_member'')]],
      cats = \<lparr>non_member_nicks = {''bob''}, not_found_nicks = {}, error_nicks = {''Bob''},
              lookups = [''bob'', ''bob'']\<rparr>\<rparr>"

text \<open>A feed of the allowed account in capitals, one without a nick, one with an empty nick.\<close>

definition feed_uwn :: feed where
  "feed_uwn = [(''name'', JStr ''Ubuntu Weekly News''), (''nick'', JStr ''UWN''), (''url'', JStr ''https://u.example/feed'')]"

definition allow_feeds :: "feed list" where
  "allow_feeds = [feed_uwn, feed_bob]"

definition allow_result :: validation where
  "allow_result =
     \<lparr>valid_feeds = [feed_uwn],
      removed_entries = [feed_bob @ [(''reason'', JStr ''not_member'')]],
      cats = \<lparr>non_member_nicks = {''bob''}, not_found_nicks = {}, error_nicks = {},
              lookups = [''bob'']\<rparr>\<rparr>"

definition feed_nonick :: feed where
  "feed_nonick = [(''name'', JStr ''Planet''), (''url'', JStr ''https://p.example/feed'')]"

definition feed_emptynick :: feed where
  "feed_emptynick = [(''name'', JStr ''Nobody''), (''nick'', JStr []), (''url'', JStr ''https://n.example/feed'')]"

definition empty_feeds :: "feed list" where
  "empty_feeds = [feed_nonick, feed_bob, feed_emptynick]"

definition empty_result :: validation where
  "empty_result =
     \<lparr>valid_feeds = [feed_nonick, feed_emptynick],
      removed_entries = [feed_bob @ [(''reason'', JStr ''not_member'')]],
      cats = \<lparr>non_member_nicks = {''bob''}, not_found_nicks = {}, error_nicks = {},
              lookups = [''bob'']\<rparr>\<rparr>"

text \<open>A feed that is kept although it has no name, beside one that is removed.\<close>

definition feed_anon :: feed where
  "feed_anon = [(''nick'', JStr ''alice''), (''url'', JStr ''https://a.example/other'')]"

definition anon_feeds :: "feed list" where
  "anon_feeds = [feed_anon, feed_bob]"

definition anon_result :: validation where
  "anon_result =
     \<lparr>valid_feeds = [feed_anon],
      removed_entries = [feed_bob @ [(''reason'', JStr ''not_member'')]],
      cats = \<lparr>non_member_nicks = {''bob''}, not_found_nicks = {}, error_nicks = {},
              lookups = [''bob'']\<rparr>\<rparr>"

definition anon_load :: "string \<Rightarrow> feed list option" where
  "anon_load bytes = (if bytes = ''two feeds'' then Some anon_feeds else None)"

definition anon_env :: env where
  "anon_env =
     \<lparr>json_load = anon_load, json_dump = scen_dump, utf8 = plain_codec,
      locale_codec = plain_codec, py_str = scen_str,
      GITHUB_OUTPUT = Some ''github_output.txt'', now = ''2024-01-01 00:00 UTC''\<rparr>"

definition anon_world :: world where
  "anon_world =
     \<lparr>resolve = scen_resolve, files = [FEEDS_FILE \<mapsto> ''two feeds''],
      printed_outputs = [], space_left = None\<rparr>"

text \<open>A device that accepts three more bytes, and one that is full.\<close>

definition small_world :: world where
  "small_world =
     \<lparr>resolve = scen_resolve, files = [FEEDS_FILE \<mapsto> ''three feeds''],
      printed_outputs = [], space_left = Some 3\<rparr>"

definition full_world :: world where
  "full_world =
     \<lparr>resolve = scen_resolve, files = [FEEDS_FILE \<mapsto> ''three feeds''],
      printed_outputs = [], space_left = Some 0\<rparr>"




section \<open>The loops of validate_memberships\<close>

lemma add_participants_eq: "add_participants members persons = members \<union> set persons"
  by (induction persons arbitrary: members) auto

lemma get_ubuntu_members_names:
  "participants lp = Some names \<Longrightarrow> get_ubuntu_members lp = Inr (set names)"
  by (simp add: get_ubuntu_members_def add_participants_eq)

lemma check_single_nick_cases:
  "fst (check_single_nick lp calls n M) =
     (if lower n \<in> M then ''member''
      else case people lp (length calls) (lower n) of
             Found \<Rightarrow> ''not_member'' | NotFound \<Rightarrow> ''not_found'' | ApiError \<Rightarrow> ''error'')"
  by (simp add: check_single_nick_def check_user_exists_def Let_def split: lookup_result.splits)

lemma categorize_step_cases:
  "categorize_step lp M st n =
     (if lower n \<in> M then st
      else case people lp (length (lookups st)) (lower n) of
             Found \<Rightarrow> st\<lparr>non_member_nicks := insert n (non_member_nicks st), lookups := lookups st @ [lower n]\<rparr>
           | NotFound \<Rightarrow> st\<lparr>not_found_nicks := insert n (not_found_nicks st), lookups := lookups st @ [lower n]\<rparr>
           | ApiError \<Rightarrow> st\<lparr>error_nicks := insert n (error_nicks st), lookups := lookups st @ [lower n]\<rparr>)"
  by (simp add: categorize_step_def check_user_exists_def Let_def split: lookup_result.splits)

lemma categorize_loop:
  assumes "sorted xs" "distinct xs"
  shows "lookups (foldl (categorize_step lp M) no_categories xs) = map lower (filter (\<lambda>m. lower m \<notin> M) xs)
    \<and> non_member_nicks (foldl (categorize_step lp M) no_categories xs)
        = {n \<in> set xs. lower n \<notin> M \<and> answer_at lp M xs n = Found}
    \<and> not_found_nicks (foldl (categorize_step lp M) no_categories xs)
        = {n \<in> set xs. lower n \<notin> M \<and> answer_at lp M xs n = NotFound}
    \<and> error_nicks (foldl (categorize_step lp M) no_categories xs)
        = {n \<in> set xs. lower n \<notin> M \<and> answer_at lp M xs n = ApiError}"
  using assms
proof (induction xs rule: rev_induct)
  case Nil
  show ?case by (simp add: no_categories_def)
next
  case (snoc x xs)
  let ?st = "foldl (categorize_step lp M) no_categories xs"
  from snoc.prems have sx: "sorted xs" "distinct xs" and lt: "\<forall>y\<in>set xs. y < x" and nx: "x \<notin> set xs"
    by (auto simp: sorted_append order_less_le)
  note IH = snoc.IH [OF sx]
  have old: "\<And>n. n \<in> set xs \<Longrightarrow> answer_at lp M (xs @ [x]) n = answer_at lp M xs n"
    using lt by (auto simp: answer_at_def dest: order_less_asym)
  have new: "answer_at lp M (xs @ [x]) x = people lp (length (lookups ?st)) (lower x)"
  proof -
    have "filter (\<lambda>m. m < x \<and> lower m \<notin> M) xs = filter (\<lambda>m. lower m \<notin> M) xs"
      using lt by (intro filter_cong) auto
    then show ?thesis using IH by (simp add: answer_at_def)
  qed
  have fold: "foldl (categorize_step lp M) no_categories (xs @ [x]) = categorize_step lp M ?st x"
    by simp
  note step = categorize_step_cases [of lp M ?st x]
  show ?case
  proof (cases "lower x \<in> M")
    case True
    with step have "categorize_step lp M ?st x = ?st" by simp
    then show ?thesis unfolding fold using IH old True
      by auto
  next
    case False
    show ?thesis
    proof (cases "people lp (length (lookups ?st)) (lower x)")
      case Found
      with step False have "categorize_step lp M ?st x
        = ?st\<lparr>non_member_nicks := insert x (non_member_nicks ?st), lookups := lookups ?st @ [lower x]\<rparr>"
        by simp
      then show ?thesis unfolding fold using IH old new nx False Found
        by auto
    next
      case NotFound
      with step False have "categorize_step lp M ?st x
        = ?st\<lparr>not_found_nicks := insert x (not_found_nicks ?st), lookups := lookups ?st @ [lower x]\<rparr>"
        by simp
      then show ?thesis unfolding fold using IH old new nx False NotFound
        by auto
    next
      case ApiError
      with step False have "categorize_step lp M ?st x
        = ?st\<lparr>error_nicks := insert x (error_nicks ?st), lookups := lookups ?st @ [lower x]\<rparr>"
        by simp
      then show ?thesis unfolding fold using IH old new nx False ApiError
        by auto
    qed
  qed
qed

lemma get_unique_nicks_step_result:
  "get_unique_nicks_step N f = Inr N' \<Longrightarrow>
   N' = N \<union> {s. s \<noteq> [] \<and> lower s \<notin> lower ` ALLOWED_NICKS \<and> nick_of f = JStr s}"
  by (cases "nick_of f") (auto simp: get_unique_nicks_step_def Let_def split: if_splits)

lemma get_unique_nicks_loop_result:
  "get_unique_nicks_loop N feeds = Inr N' \<Longrightarrow>
   N' = N \<union> {s. s \<noteq> [] \<and> lower s \<notin> lower ` ALLOWED_NICKS \<and> (\<exists>f\<in>set feeds. nick_of f = JStr s)}"
proof (induction feeds arbitrary: N)
  case Nil
  then show ?case by simp
next
  case (Cons f feeds)
  from Cons.prems obtain N1 where s: "get_unique_nicks_step N f = Inr N1"
    and l: "get_unique_nicks_loop N1 feeds = Inr N'"
    by (auto split: sum.splits)
  from get_unique_nicks_step_result [OF s] Cons.IH [OF l] show ?case by auto
qed

lemma get_unique_nicks_result:
  "get_unique_nicks feeds = Inr nicks \<Longrightarrow>
   nicks = {s. s \<noteq> [] \<and> lower s \<notin> lower ` ALLOWED_NICKS \<and> (\<exists>f\<in>set feeds. nick_of f = JStr s)}"
  unfolding get_unique_nicks_def by (drule get_unique_nicks_loop_result) simp

lemma get_unique_nicks_step_finite:
  "get_unique_nicks_step N f = Inr N' \<Longrightarrow> finite N \<Longrightarrow> finite N'"
  by (cases "nick_of f") (auto simp: get_unique_nicks_step_def Let_def split: if_splits)

lemma get_unique_nicks_loop_finite:
  "get_unique_nicks_loop N feeds = Inr N' \<Longrightarrow> finite N \<Longrightarrow> finite N'"
proof (induction feeds arbitrary: N)
  case Nil
  then show ?case by simp
next
  case (Cons f feeds)
  from Cons.prems obtain N1 where s: "get_unique_nicks_step N f = Inr N1"
    and l: "get_unique_nicks_loop N1 feeds = Inr N'"
    by (auto split: sum.splits)
  from get_unique_nicks_step_finite [OF s Cons.prems(2)] Cons.IH [OF l] show ?case by simp
qed

lemma get_unique_nicks_finite: "get_unique_nicks feeds = Inr nicks \<Longrightarrow> finite nicks"
  unfolding get_unique_nicks_def by (erule get_unique_nicks_loop_finite) simp

lemma get_unique_nicks_step_returns:
  "lowerable (nick_of f) \<Longrightarrow> \<exists>N'. get_unique_nicks_step N f = Inr N'"
  by (cases "nick_of f") (auto simp: get_unique_nicks_step_def lowerable_def Let_def)

lemma get_unique_nicks_loop_returns:
  "\<forall>f\<in>set feeds. lowerable (nick_of f) \<Longrightarrow> \<exists>N'. get_unique_nicks_loop N feeds = Inr N'"
proof (induction feeds arbitrary: N)
  case Nil
  then show ?case by simp
next
  case (Cons f feeds)
  then obtain N1 where "get_unique_nicks_step N f = Inr N1"
    using get_unique_nicks_step_returns [of f N] by auto
  with Cons show ?case by simp
qed

lemma get_unique_nicks_returns:
  "\<forall>f\<in>set feeds. lowerable (nick_of f) \<Longrightarrow> \<exists>nicks. get_unique_nicks feeds = Inr nicks"
  unfolding get_unique_nicks_def by (rule get_unique_nicks_loop_returns)

lemma filter_step_result:
  "filter_step st acc f = Inr acc' \<Longrightarrow>
   acc' = (fst acc @ filter (\<lambda>f. \<not> invalid st f) [f], snd acc @ map (with_reason st) (filter (invalid st) [f]))"
  by (cases "nick_of f") (auto simp: filter_step_def invalid_def with_reason_def Let_def split: if_splits)

lemma filter_feeds_result:
  "filter_feeds st acc feeds = Inr acc' \<Longrightarrow>
   acc' = (fst acc @ filter (\<lambda>f. \<not> invalid st f) feeds,
           snd acc @ map (with_reason st) (filter (invalid st) feeds))"
proof (induction feeds arbitrary: acc)
  case Nil
  then show ?case by simp
next
  case (Cons f feeds)
  from Cons.prems obtain acc1 where s: "filter_step st acc f = Inr acc1"
    and l: "filter_feeds st acc1 feeds = Inr acc'"
    by (auto split: sum.splits)
  from filter_step_result [OF s] Cons.IH [OF l] show ?case by (cases "invalid st f") auto
qed

lemma filter_step_returns:
  "hashable (nick_of f) \<Longrightarrow> \<exists>acc'. filter_step st acc f = Inr acc'"
  by (cases "nick_of f") (auto simp: filter_step_def hashable_def Let_def)

lemma filter_feeds_returns:
  "\<forall>f\<in>set feeds. hashable (nick_of f) \<Longrightarrow> \<exists>acc'. filter_feeds st acc feeds = Inr acc'"
proof (induction feeds arbitrary: acc)
  case Nil
  then show ?case by simp
next
  case (Cons f feeds)
  then obtain acc1 where "filter_step st acc f = Inr acc1"
    using filter_step_returns [of f st acc] by auto
  with Cons show ?case by simp
qed

lemma validate_memberships_result:
  assumes "validate_memberships feeds lp = Inr v"
  obtains nicks M where "get_unique_nicks feeds = Inr nicks" "get_ubuntu_members lp = Inr M"
    "cats v = categorize lp M nicks"
    "valid_feeds v = filter (\<lambda>f. \<not> invalid (cats v) f) feeds"
    "removed_entries v = map (with_reason (cats v)) (filter (invalid (cats v)) feeds)"
proof -
  from assms obtain nicks M a b where n: "get_unique_nicks feeds = Inr nicks"
    and m: "get_ubuntu_members lp = Inr M"
    and f: "filter_feeds (categorize lp M nicks) ([], []) feeds = Inr (a, b)"
    and v: "v = \<lparr>valid_feeds = a, removed_entries = b, cats = categorize lp M nicks\<rparr>"
    by (auto simp: validate_memberships_def Let_def split: sum.splits prod.splits)
  from filter_feeds_result [OF f] v n m that show ?thesis by simp
qed

lemma validate_memberships_returns:
  assumes "\<forall>f\<in>set feeds. lowerable (nick_of f) \<and> hashable (nick_of f)" "participants lp \<noteq> None"
  shows "\<exists>v. validate_memberships feeds lp = Inr v"
proof -
  from assms obtain nicks where n: "get_unique_nicks feeds = Inr nicks"
    using get_unique_nicks_returns [of feeds] by auto
  from assms obtain M where m: "get_ubuntu_members lp = Inr M"
    by (auto simp: get_ubuntu_members_def)
  from assms obtain acc where "filter_feeds (categorize lp M nicks) ([], []) feeds = Inr acc"
    using filter_feeds_returns [of feeds "categorize lp M nicks" "([], [])"] by auto
  with n m show ?thesis
    by (cases acc) (simp add: validate_memberships_def Let_def)
qed

lemma outcome_cases:
  "outcome lp M nicks n =
     (if n \<notin> nicks then None
      else if lower n \<in> M then Some ''member''
      else case people lp (length (lookups_before M nicks n)) (lower n) of
             Found \<Rightarrow> Some ''not_member'' | NotFound \<Rightarrow> Some ''not_found'' | ApiError \<Rightarrow> Some ''error'')"
  by (simp add: outcome_def check_single_nick_cases split: lookup_result.splits)

lemma categorize_outcome:
  assumes "finite nicks"
  shows "lookups (categorize lp M nicks) = map lower (filter (\<lambda>m. lower m \<notin> M) (sorted_list_of_set nicks))"
    and "non_member_nicks (categorize lp M nicks) = {n. outcome lp M nicks n = Some ''not_member''}"
    and "not_found_nicks (categorize lp M nicks) = {n. outcome lp M nicks n = Some ''not_found''}"
    and "error_nicks (categorize lp M nicks) = {n. outcome lp M nicks n = Some ''error''}"
proof -
  let ?xs = "sorted_list_of_set nicks"
  have sd: "sorted ?xs" "distinct ?xs" and set: "set ?xs = nicks"
    using assms by simp_all
  have ans: "\<And>n. answer_at lp M ?xs n = people lp (length (lookups_before M nicks n)) (lower n)"
    by (simp add: answer_at_def lookups_before_def)
  note L = categorize_loop [OF sd, of lp M, folded categorize_def, unfolded ans set]
  show "lookups (categorize lp M nicks) = map lower (filter (\<lambda>m. lower m \<notin> M) ?xs)"
    using L by simp
  show "non_member_nicks (categorize lp M nicks) = {n. outcome lp M nicks n = Some ''not_member''}"
  proof (rule set_eqI)
    fix n show "n \<in> non_member_nicks (categorize lp M nicks)
        \<longleftrightarrow> n \<in> {n. outcome lp M nicks n = Some ''not_member''}"
      by (cases "people lp (length (lookups_before M nicks n)) (lower n)")
         (simp_all add: L outcome_cases)
  qed
  show "not_found_nicks (categorize lp M nicks) = {n. outcome lp M nicks n = Some ''not_found''}"
  proof (rule set_eqI)
    fix n show "n \<in> not_found_nicks (categorize lp M nicks)
        \<longleftrightarrow> n \<in> {n. outcome lp M nicks n = Some ''not_found''}"
      by (cases "people lp (length (lookups_before M nicks n)) (lower n)")
         (simp_all add: L outcome_cases)
  qed
  show "error_nicks (categorize lp M nicks) = {n. outcome lp M nicks n = Some ''error''}"
  proof (rule set_eqI)
    fix n show "n \<in> error_nicks (categorize lp M nicks)
        \<longleftrightarrow> n \<in> {n. outcome lp M nicks n = Some ''error''}"
      by (cases "people lp (length (lookups_before M nicks n)) (lower n)")
         (simp_all add: L outcome_cases)
  qed
qed

lemma invalid_removable:
  assumes "finite nicks"
  shows "invalid (categorize lp M nicks) f = removable lp M nicks f"
  by (cases "nick_of f")
     (auto simp: invalid_def removable_def feed_outcome_def categorize_outcome [OF assms])

lemma with_reason_tagged:
  assumes "finite nicks" "removable lp M nicks f"
  shows "with_reason (categorize lp M nicks) f = tagged lp M nicks f"
  using assms(2)
  by (cases "nick_of f")
     (auto simp: with_reason_def tagged_def removable_def feed_outcome_def categorize_outcome [OF assms(1)])

section \<open>Consequences for a whole run\<close>

lemma validate_partition:
  assumes "validate_memberships feeds lp = Inr v"
    and "get_unique_nicks feeds = Inr nicks"
    and "get_ubuntu_members lp = Inr M"
  shows "cats v = categorize lp M nicks"
    and "finite nicks"
    and "valid_feeds v = filter (\<lambda>f. \<not> removable lp M nicks f) feeds"
    and "removed_entries v = map (tagged lp M nicks) (filter (removable lp M nicks) feeds)"
proof -
  from assms(1) obtain nicks' M' where r: "get_unique_nicks feeds = Inr nicks'"
    "get_ubuntu_members lp = Inr M'" "cats v = categorize lp M' nicks'"
    "valid_feeds v = filter (\<lambda>f. \<not> invalid (cats v) f) feeds"
    "removed_entries v = map (with_reason (cats v)) (filter (invalid (cats v)) feeds)"
    by (rule validate_memberships_result)
  with assms have eq: "nicks' = nicks" "M' = M" by simp_all
  show fin: "finite nicks" using assms(2) by (rule get_unique_nicks_finite)
  have inv: "invalid (categorize lp M nicks) = removable lp M nicks"
    by (rule ext) (rule invalid_removable [OF fin])
  show "cats v = categorize lp M nicks" using r eq by simp
  show "valid_feeds v = filter (\<lambda>f. \<not> removable lp M nicks f) feeds"
    using r eq by (simp add: inv)
  have "map (with_reason (categorize lp M nicks)) (filter (removable lp M nicks) feeds)
      = map (tagged lp M nicks) (filter (removable lp M nicks) feeds)"
    by (rule map_cong [OF refl]) (simp add: with_reason_tagged [OF fin])
  then show "removed_entries v = map (tagged lp M nicks) (filter (removable lp M nicks) feeds)"
    using r eq by (simp add: inv)
qed

lemma validate_lookups:
  assumes "validate_memberships feeds lp = Inr v"
    and "get_unique_nicks feeds = Inr nicks"
    and "get_ubuntu_members lp = Inr M"
  shows "lookups (cats v) = map lower (filter (\<lambda>m. lower m \<notin> M) (sorted_list_of_set nicks))"
  using validate_partition(1,2) [OF assms] categorize_outcome(1) by simp

lemma feed_get_update_other:
  "k \<noteq> k' \<Longrightarrow> feed_get (AList.update k' v f) k d = feed_get f k d"
  by (simp add: feed_get_def update_conv')

lemma nick_of_tagged: "nick_of (tagged lp M nicks f) = nick_of f"
  by (simp add: tagged_def feed_get_update_other)

lemma kept_iff:
  assumes "validate_memberships feeds lp = Inr v"
    and "get_unique_nicks feeds = Inr nicks"
    and "get_ubuntu_members lp = Inr M"
  shows "f \<in> set (valid_feeds v) \<longleftrightarrow> f \<in> set feeds \<and> \<not> removable lp M nicks f"
  using validate_partition(3) [OF assms] by auto

lemma removed_iff:
  assumes "validate_memberships feeds lp = Inr v"
    and "get_unique_nicks feeds = Inr nicks"
    and "get_ubuntu_members lp = Inr M"
  shows "e \<in> set (removed_entries v) \<longleftrightarrow>
         (\<exists>f\<in>set feeds. removable lp M nicks f \<and> e = tagged lp M nicks f)"
  using validate_partition(4) [OF assms] by auto

lemma removable_cases:
  "removable lp M nicks f \<longleftrightarrow>
     (\<exists>s. nick_of f = JStr s \<and> s \<in> nicks \<and> lower s \<notin> M
          \<and> people lp (length (lookups_before M nicks s)) (lower s) \<noteq> ApiError)"
proof (cases "nick_of f")
  case (JStr s)
  then show ?thesis
    by (cases "people lp (length (lookups_before M nicks s)) (lower s)")
       (simp_all add: removable_def feed_outcome_def outcome_cases)
qed (simp_all add: removable_def feed_outcome_def)

lemma nicks_to_check:
  "get_unique_nicks feeds = Inr nicks \<Longrightarrow>
   s \<in> nicks \<longleftrightarrow> s \<noteq> [] \<and> lower s \<notin> lower ` ALLOWED_NICKS \<and> (\<exists>f\<in>set feeds. nick_of f = JStr s)"
  by (drule get_unique_nicks_result) blast

lemma lower_Nil: "lower s = [] \<longleftrightarrow> s = []"
  by (simp add: lower_def)

lemma get_unique_nicks_loop_skip_empty:
  "get_unique_nicks_loop N feeds = Inr N' \<Longrightarrow>
   get_unique_nicks_loop N (filter (\<lambda>g. nick_of g \<noteq> JStr []) feeds) = Inr N'"
proof (induction feeds arbitrary: N)
  case Nil
  then show ?case by simp
next
  case (Cons f feeds)
  from Cons.prems obtain N1 where s: "get_unique_nicks_step N f = Inr N1"
    and l: "get_unique_nicks_loop N1 feeds = Inr N'"
    by (auto split: sum.splits)
  show ?case
  proof (cases "nick_of f = JStr []")
    case True
    with s have "N1 = N" by (simp add: get_unique_nicks_step_def)
    with True Cons.IH [OF l] show ?thesis by simp
  next
    case False
    with s Cons.IH [OF l] show ?thesis by simp
  qed
qed

lemma count_list_map:
  "count_list (map f xs) y = length (filter (\<lambda>x. f x = y) xs)"
  by (induction xs) simp_all

lemma count_lookups:
  assumes "finite nicks"
  shows "count_list (map lower (filter (\<lambda>m. lower m \<notin> M) (sorted_list_of_set nicks))) ident
       = card {n \<in> nicks. lower n = ident \<and> ident \<notin> M}"
proof -
  let ?xs = "sorted_list_of_set nicks"
  have "count_list (map lower (filter (\<lambda>m. lower m \<notin> M) ?xs)) ident
      = length (filter (\<lambda>x. lower x = ident \<and> ident \<notin> M) ?xs)"
    by (simp add: count_list_map) (rule arg_cong [where f = length], rule filter_cong, auto)
  also have "\<dots> = card ({x. lower x = ident \<and> ident \<notin> M} \<inter> set ?xs)"
    by (rule distinct_length_filter) simp
  also have "{x. lower x = ident \<and> ident \<notin> M} \<inter> set ?xs = {n \<in> nicks. lower n = ident \<and> ident \<notin> M}"
    using assms by auto
  finally show ?thesis .
qed

lemma outcome_case_variants:
  assumes "get_unique_nicks feeds = Inr nicks"
    and "f \<in> set feeds" "g \<in> set feeds"
    and "nick_of f = JStr s" "nick_of g = JStr t" "lower s = lower t"
    and "\<forall>i j. people lp i (lower s) = people lp j (lower s)"
  shows "outcome lp M nicks s = outcome lp M nicks t"
proof -
  have "s = [] \<longleftrightarrow> t = []" using assms(6) lower_Nil by metis
  with assms(2-6) have "s \<in> nicks \<longleftrightarrow> t \<in> nicks"
    by (auto simp: nicks_to_check [OF assms(1)])
  moreover have "people lp (length (lookups_before M nicks s)) (lower s)
      = people lp (length (lookups_before M nicks t)) (lower t)"
    using assms(6,7) by metis
  ultimately show ?thesis using assms(6) by (simp add: outcome_cases)
qed

lemma feed_item_tagged_reason:
  "\<exists>r. feed_item (tagged lp M nicks f) ''reason'' = Inr r"
  by (simp add: feed_item_def tagged_def update_conv')

lemma feed_item_tagged_other:
  "k \<noteq> ''reason'' \<Longrightarrow> feed_item (tagged lp M nicks f) k = feed_item f k"
  by (simp add: feed_item_def tagged_def update_conv')

lemma removable_has_nick:
  assumes "get_unique_nicks feeds = Inr nicks" "removable lp M nicks f"
  shows "\<exists>s. feed_item f ''nick'' = Inr s"
proof -
  from assms(2) obtain s where s: "nick_of f = JStr s" "s \<in> nicks"
    by (auto simp: removable_cases)
  then have "s \<noteq> []" by (simp add: nicks_to_check [OF assms(1)])
  with s(1) show ?thesis
    by (cases "map_of f ''nick''") (simp_all add: feed_get_def feed_item_def)
qed

lemma print_removed_tagged:
  assumes "get_unique_nicks feeds = Inr nicks"
    and "\<forall>f\<in>set fs. removable lp M nicks f \<and> map_of f ''name'' \<noteq> None"
  shows "print_removed (map (tagged lp M nicks) fs) = Inr ()"
  using assms(2)
proof (induction fs)
  case Nil
  then show ?case by simp
next
  case (Cons f fs)
  obtain r where r: "feed_item (tagged lp M nicks f) ''reason'' = Inr r"
    using feed_item_tagged_reason by blast
  from Cons.prems obtain n where "map_of f ''name'' = Some n" by auto
  then have n: "feed_item (tagged lp M nicks f) ''name'' = Inr n"
    by (simp add: feed_item_tagged_other) (simp add: feed_item_def)
  from Cons.prems obtain s where s: "feed_item (tagged lp M nicks f) ''nick'' = Inr s"
    using removable_has_nick [OF assms(1), of lp M f] by (auto simp: feed_item_tagged_other)
  from Cons r n s show ?case by simp
qed

lemma finish_effect:
  "snd (finish r) = snd r \<and> (fst (finish r) = Inr 0 \<longleftrightarrow> fst r = Inr ())"
  by (cases r) (auto simp: finish_def split: sum.splits)

section \<open>What the writes leave\<close>

lemma fs_write_all_snoc:
  "fs_write_all codec path (ps @ [q]) w =
     (case fs_write_all codec path ps w of
        (Inl err, w') \<Rightarrow> (Inl err, w')
      | (Inr _, w') \<Rightarrow> fs_write codec path q w')"
proof (induction ps arbitrary: w)
  case Nil
  show ?case by (cases "fs_write codec path q w") (auto split: sum.splits)
next
  case (Cons p ps)
  show ?case
    by (cases "fs_write codec path p w") (auto simp: Cons.IH split: sum.splits)
qed

lemma save_feeds_write_all:
  "save_feeds e feeds w
     = fs_write_all (utf8 e) FEEDS_FILE (save_output e feeds) (fs_open_w FEEDS_FILE w)"
  by (simp add: save_feeds_def save_output_def fs_write_all_snoc)

lemma encode_all_prefix:
  "encode_all codec ps = Some bytes \<Longrightarrow> encoded_prefix codec ps = bytes"
  by (induction ps arbitrary: bytes) (auto split: option.splits)

lemma fs_write_resolve: "resolve (snd (fs_write codec path s w)) = resolve w"
  by (simp add: fs_write_def split: option.splits)

lemma fs_write_all_effect:
  "files w (resolve w path) = Some c0 \<Longrightarrow>
   fst (fs_write_all codec path ps w)
     = (if \<not> fits (space_left w) (encoded_prefix codec ps) then Inl WriteError
        else if encode_all codec ps = None then Inl UnicodeEncodeError
        else Inr ())
   \<and> files (snd (fs_write_all codec path ps w)) (resolve w path)
       = Some (c0 @ accepted (space_left w) (encoded_prefix codec ps))
   \<and> (\<forall>f. f \<noteq> resolve w path \<longrightarrow> files (snd (fs_write_all codec path ps w)) f = files w f)
   \<and> resolve (snd (fs_write_all codec path ps w)) = resolve w
   \<and> printed_outputs (snd (fs_write_all codec path ps w)) = printed_outputs w"
proof (induction ps arbitrary: w c0)
  case Nil
  then show ?case by (simp add: fits_def accepted_def split: option.splits)
next
  case (Cons p ps)
  show ?case
  proof (cases "codec p")
    case None
    with Cons.prems show ?thesis
      by (simp add: fs_write_def fits_def accepted_def split: option.splits)
  next
    case (Some b)
    show ?thesis
    proof (cases "space_left w")
      case None
      let ?w1 = "w\<lparr>files := (files w)(resolve w path \<mapsto> c0 @ b)\<rparr>"
      have w1: "fs_write codec path p w = (Inr (), ?w1)"
        using Some None Cons.prems by (simp add: fs_write_def file_content_def)
      have "files ?w1 (resolve ?w1 path) = Some (c0 @ b)" by simp
      from Cons.IH [OF this] w1 Some None show ?thesis
        by (simp add: fits_def accepted_def split: option.splits)
    next
      case (Some k)
      note k = Some
      show ?thesis
      proof (cases "length b \<le> k")
        case True
        let ?w1 = "w\<lparr>files := (files w)(resolve w path \<mapsto> c0 @ b),
                      space_left := Some (k - length b)\<rparr>"
        have w1: "fs_write codec path p w = (Inr (), ?w1)"
          using \<open>codec p = Some b\<close> k True Cons.prems by (simp add: fs_write_def file_content_def)
        have "files ?w1 (resolve ?w1 path) = Some (c0 @ b)" by simp
        from Cons.IH [OF this] w1 \<open>codec p = Some b\<close> k True show ?thesis
          by (auto simp: fits_def accepted_def split: option.splits)
      next
        case False
        with \<open>codec p = Some b\<close> k Cons.prems show ?thesis
          by (simp add: fs_write_def file_content_def fits_def accepted_def)
      qed
    qed
  qed
qed

lemma save_feeds_effect:
  "fst (save_feeds e feeds w)
     = (if \<not> fits (space_left w) (encoded_prefix (utf8 e) (save_output e feeds)) then Inl WriteError
        else if encode_all (utf8 e) (save_output e feeds) = None then Inl UnicodeEncodeError
        else Inr ())
   \<and> files (snd (save_feeds e feeds w)) (resolve w FEEDS_FILE)
       = Some (accepted (space_left w) (encoded_prefix (utf8 e) (save_output e feeds)))
   \<and> (\<forall>f. f \<noteq> resolve w FEEDS_FILE \<longrightarrow> files (snd (save_feeds e feeds w)) f = files w f)
   \<and> resolve (snd (save_feeds e feeds w)) = resolve w
   \<and> printed_outputs (snd (save_feeds e feeds w)) = printed_outputs w"
proof -
  let ?w0 = "fs_open_w FEEDS_FILE w"
  have o: "files ?w0 (resolve ?w0 FEEDS_FILE) = Some []"
    by (simp add: fs_open_w_def)
  have r: "resolve ?w0 = resolve w" "space_left ?w0 = space_left w"
    "printed_outputs ?w0 = printed_outputs w"
    "\<forall>f. f \<noteq> resolve w FEEDS_FILE \<longrightarrow> files ?w0 f = files w f"
    by (simp_all add: fs_open_w_def)
  from fs_write_all_effect [OF o, of "utf8 e" "save_output e feeds"] r
  show ?thesis unfolding save_feeds_write_all by simp
qed

lemma set_github_output_effect:
  "(\<forall>f. output_file e w \<noteq> Some f \<longrightarrow> files (snd (set_github_output e name val w)) f = files w f)
   \<and> resolve (snd (set_github_output e name val w)) = resolve w
   \<and> (fst (set_github_output e name val w) = Inr () \<longrightarrow>
        printed_outputs (snd (set_github_output e name val w)) = printed_outputs w @ [(name, val)])
   \<and> (fst (set_github_output e name val w) \<noteq> Inr () \<longrightarrow>
        printed_outputs (snd (set_github_output e name val w)) = printed_outputs w)
   \<and> (output_file e w = None \<longrightarrow> fst (set_github_output e name val w) = Inr ())"
  by (auto simp: set_github_output_def output_file_def fs_write_def fs_open_a_def file_content_def
           split: option.splits if_splits)

lemma map_of_tagged_other:
  "k \<noteq> ''reason'' \<Longrightarrow> map_of (tagged lp M nicks f) k = map_of f k"
  by (simp add: tagged_def update_conv')

lemma print_removed_run:
  assumes "validate_memberships feeds lp = Inr v"
    and "\<forall>r\<in>set (removed_entries v). map_of r ''name'' \<noteq> None"
  shows "print_removed (removed_entries v) = Inr ()"
proof -
  from assms(1) obtain nicks M where r: "get_unique_nicks feeds = Inr nicks"
    "get_ubuntu_members lp = Inr M"
    by (rule validate_memberships_result)
  note run = assms(1) r
  note rem = validate_partition(4) [OF run]
  have "\<forall>f\<in>set (filter (removable lp M nicks) feeds).
          removable lp M nicks f \<and> map_of f ''name'' \<noteq> None"
  proof
    fix f assume f: "f \<in> set (filter (removable lp M nicks) feeds)"
    then have "tagged lp M nicks f \<in> set (removed_entries v)" unfolding rem by simp
    with assms(2) have "map_of (tagged lp M nicks f) ''name'' \<noteq> None" by blast
    then have "map_of f ''name'' \<noteq> None" by (simp add: map_of_tagged_other)
    with f show "removable lp M nicks f \<and> map_of f ''name'' \<noteq> None" by simp
  qed
  then show ?thesis unfolding rem by (rule print_removed_tagged [OF r(1)])
qed


section \<open>Claims\<close>

text \<open>
  Claim C1, as the code has it. In a dry run that finds feeds to remove, each of them with
  a name (the removals are printed before the dry run ends), \<^verbatim>\<open>main\<close> ends with
  \<^verbatim>\<open>set_github_output("has_changes", "false")\<close>. No file changes except the one that
  \<^verbatim>\<open>GITHUB_OUTPUT\<close> names, so the data file is left as it was unless \<^verbatim>\<open>GITHUB_OUTPUT\<close> names
  it, by whatever path. When the run returns 0 it has printed \<^verbatim>\<open>has_changes=false\<close>, not
  \<^verbatim>\<open>true\<close>; otherwise it has printed nothing; and it returns 0 when \<^verbatim>\<open>GITHUB_OUTPUT\<close> names
  no file.
\<close>

theorem dry_run_reports_no_changes:
  assumes "check a = []" and "dry_run a"
    and "load_feeds e w = Inr feeds"
    and "validate_memberships feeds lp = Inr v"
    and "removed_entries v \<noteq> []"
    and "\<forall>r\<in>set (removed_entries v). map_of r ''name'' \<noteq> None"
  shows "main a e lp w = finish (set_github_output e ''has_changes'' ''false'' w)
       \<and> (output_file e w \<noteq> Some (resolve w FEEDS_FILE) \<longrightarrow>
            files (snd (main a e lp w)) (resolve w FEEDS_FILE) = files w (resolve w FEEDS_FILE))
       \<and> (\<forall>f. output_file e w \<noteq> Some f \<longrightarrow> files (snd (main a e lp w)) f = files w f)
       \<and> (fst (main a e lp w) = Inr 0 \<longrightarrow>
            printed_outputs (snd (main a e lp w))
              = printed_outputs w @ [(''has_changes'', ''false'')])
       \<and> (fst (main a e lp w) \<noteq> Inr 0 \<longrightarrow>
            printed_outputs (snd (main a e lp w)) = printed_outputs w)
       \<and> (output_file e w = None \<longrightarrow> fst (main a e lp w) = Inr 0)"
proof -
  have "print_removed (removed_entries v) = Inr ()"
    using assms(4,6) by (rule print_removed_run)
  with assms(1-5) have m: "main a e lp w = finish (set_github_output e ''has_changes'' ''false'' w)"
    by (simp add: main_def)
  note eff = set_github_output_effect [of e w "''has_changes''" "''false''"]
  note fin = finish_effect [of "set_github_output e ''has_changes'' ''false'' w"]
  from eff fin show ?thesis unfolding m by simp
qed

theorem dry_run_reports_no_changes_witness:
  "check dry_args = []
   \<and> dry_run dry_args
   \<and> load_feeds anon_env anon_world = Inr anon_feeds
   \<and> validate_memberships anon_feeds scen_lp = Inr anon_result
   \<and> removed_entries anon_result \<noteq> []
   \<and> map_of feed_anon ''name'' = None
   \<and> output_file anon_env anon_world = Some ''github_output.txt''
   \<and> resolve anon_world FEEDS_FILE = ''feeds.json''
   \<and> main dry_args anon_env scen_lp anon_world
       = finish (set_github_output anon_env ''has_changes'' ''false'' anon_world)
   \<and> files (snd (main dry_args anon_env scen_lp anon_world)) (resolve anon_world FEEDS_FILE)
       = files anon_world (resolve anon_world FEEDS_FILE)
   \<and> fst (main dry_args anon_env scen_lp anon_world) = Inr 0
   \<and> printed_outputs (snd (main dry_args anon_env scen_lp anon_world))
       = printed_outputs anon_world @ [(''has_changes'', ''false'')]"
proof -
  have h1: "check dry_args = []" and h2: "dry_run dry_args"
    by (simp_all add: dry_args_def)
  have h3: "load_feeds anon_env anon_world = Inr anon_feeds"
    by code_simp
  have h4: "validate_memberships anon_feeds scen_lp = Inr anon_result"
    by code_simp
  have h5: "removed_entries anon_result \<noteq> []"
    by (simp add: anon_result_def)
  have h6: "\<forall>r\<in>set (removed_entries anon_result). map_of r ''name'' \<noteq> None"
    by (simp add: anon_result_def feed_bob_def)
  have n: "map_of feed_anon ''name'' = None"
    by (simp add: feed_anon_def)
  have o: "output_file anon_env anon_world = Some ''github_output.txt''"
    by code_simp
  have d: "resolve anon_world FEEDS_FILE = ''feeds.json''"
    by code_simp
  have ne: "output_file anon_env anon_world \<noteq> Some (resolve anon_world FEEDS_FILE)"
    unfolding o d by simp
  have ok: "fst (main dry_args anon_env scen_lp anon_world) = Inr 0"
    by code_simp
  note t = dry_run_reports_no_changes [OF h1 h2 h3 h4 h5 h6]
  from t have c1: "main dry_args anon_env scen_lp anon_world
       = finish (set_github_output anon_env ''has_changes'' ''false'' anon_world)"
    by (rule conjunct1)
  from t ne have c2: "files (snd (main dry_args anon_env scen_lp anon_world))
        (resolve anon_world FEEDS_FILE)
       = files anon_world (resolve anon_world FEEDS_FILE)"
    by blast
  from t ok have c3: "printed_outputs (snd (main dry_args anon_env scen_lp anon_world))
       = printed_outputs anon_world @ [(''has_changes'', ''false'')]"
    by blast
  show ?thesis
    by (intro conjI h1 h2 h3 h4 h5 n o d c1 c2 ok c3)
qed

text \<open>
  The dry run of the scenario of alice, bob and carol: two feeds are to be removed, the data
  file is untouched, and the signal printed is \<^verbatim>\<open>has_changes=false\<close>. The same dry run with
  \<^verbatim>\<open>GITHUB_OUTPUT\<close> set to \<^verbatim>\<open>./feeds.json\<close> appends the line to the data file.
\<close>

theorem dry_run_counterexample:
  "dry_run dry_args
   \<and> validate_memberships scen_feeds scen_lp = Inr scen_result
   \<and> length (removed_entries scen_result) = 2
   \<and> fst (main dry_args scen_env scen_lp scen_world) = Inr 0
   \<and> files (snd (main dry_args scen_env scen_lp scen_world)) (resolve scen_world FEEDS_FILE)
       = Some ''three feeds''
   \<and> printed_outputs (snd (main dry_args scen_env scen_lp scen_world))
       = [(''has_changes'', ''false'')]
   \<and> GITHUB_OUTPUT aliased_env = Some ''./feeds.json''
   \<and> fst (main dry_args aliased_env scen_lp scen_world) = Inr 0
   \<and> files (snd (main dry_args aliased_env scen_lp scen_world)) (resolve scen_world FEEDS_FILE)
       = Some (''three feeds'' @ ''has_changes=false'' @ newline)"
  by code_simp

text \<open>
  Claim C2. For every list of feeds on which \<^verbatim>\<open>validate_memberships\<close> returns, a feed is in
  the removed list exactly when the outcome of its nick is \<^verbatim>\<open>not_found\<close> or \<^verbatim>\<open>not_member\<close>;
  the feeds with outcome \<^verbatim>\<open>member\<close> or \<^verbatim>\<open>error\<close> and the feeds never classified are kept;
  both lists keep the order of the input, and every removed feed carries the outcome of its
  nick as \<^verbatim>\<open>reason\<close>. The witness is the scenario of alice, bob and carol, whose normal run
  prints \<^verbatim>\<open>has_changes=true\<close>.
\<close>

theorem partition_by_outcome:
  assumes "validate_memberships feeds lp = Inr v"
    and "get_unique_nicks feeds = Inr nicks"
    and "get_ubuntu_members lp = Inr ubuntu_members"
  shows "valid_feeds v = filter (\<lambda>f. \<not> removable lp ubuntu_members nicks f) feeds
       \<and> removed_entries v
           = map (tagged lp ubuntu_members nicks) (filter (removable lp ubuntu_members nicks) feeds)
       \<and> (\<forall>f\<in>set feeds. \<not> removable lp ubuntu_members nicks f \<longleftrightarrow>
             feed_outcome lp ubuntu_members nicks f \<in> {None, Some ''member'', Some ''error''})"
proof -
  note run = assms
  have 1: "valid_feeds v = filter (\<lambda>f. \<not> removable lp ubuntu_members nicks f) feeds"
    by (rule validate_partition(3) [OF run])
  have 2: "removed_entries v
      = map (tagged lp ubuntu_members nicks) (filter (removable lp ubuntu_members nicks) feeds)"
    by (rule validate_partition(4) [OF run])
  have 3: "\<forall>f\<in>set feeds. \<not> removable lp ubuntu_members nicks f \<longleftrightarrow>
             feed_outcome lp ubuntu_members nicks f \<in> {None, Some ''member'', Some ''error''}"
  proof
    fix f assume "f \<in> set feeds"
    show "\<not> removable lp ubuntu_members nicks f \<longleftrightarrow>
             feed_outcome lp ubuntu_members nicks f \<in> {None, Some ''member'', Some ''error''}"
      by (cases "nick_of f")
         (auto simp: removable_def feed_outcome_def outcome_cases split: lookup_result.splits)
  qed
  from 1 2 3 show ?thesis by blast
qed

theorem partition_by_outcome_witness:
  "validate_memberships scen_feeds scen_lp = Inr scen_result
   \<and> get_unique_nicks scen_feeds = Inr {''alice'', ''bob'', ''carol''}
   \<and> get_ubuntu_members scen_lp = Inr {''alice''}
   \<and> valid_feeds scen_result
       = filter (\<lambda>f. \<not> removable scen_lp {''alice''} {''alice'', ''bob'', ''carol''} f) scen_feeds
   \<and> removed_entries scen_result
       = map (tagged scen_lp {''alice''} {''alice'', ''bob'', ''carol''})
           (filter (removable scen_lp {''alice''} {''alice'', ''bob'', ''carol''}) scen_feeds)
   \<and> valid_feeds scen_result = [feed_alice]
   \<and> removed_entries scen_result
       = [feed_bob @ [(''reason'', JStr ''not_member'')],
          feed_carol @ [(''reason'', JStr ''not_found'')]]
   \<and> fst (main normal_args scen_env scen_lp scen_world) = Inr 0
   \<and> printed_outputs (snd (main normal_args scen_env scen_lp scen_world))
       = [(''has_changes'', ''true'')]"
proof -
  have h1: "validate_memberships scen_feeds scen_lp = Inr scen_result"
    by code_simp
  have h2: "get_unique_nicks scen_feeds = Inr {''alice'', ''bob'', ''carol''}"
    by code_simp
  have h3: "get_ubuntu_members scen_lp = Inr {''alice''}"
    by code_simp
  note t = partition_by_outcome [OF h1 h2 h3]
  from t have c1: "valid_feeds scen_result
       = filter (\<lambda>f. \<not> removable scen_lp {''alice''} {''alice'', ''bob'', ''carol''} f) scen_feeds"
    by (rule conjunct1)
  from t have c2: "removed_entries scen_result
       = map (tagged scen_lp {''alice''} {''alice'', ''bob'', ''carol''})
           (filter (removable scen_lp {''alice''} {''alice'', ''bob'', ''carol''}) scen_feeds)"
    by (rule conjunct1 [OF conjunct2])
  have v1: "valid_feeds scen_result = [feed_alice]"
    by (simp add: scen_result_def)
  have v2: "removed_entries scen_result
       = [feed_bob @ [(''reason'', JStr ''not_member'')],
          feed_carol @ [(''reason'', JStr ''not_found'')]]"
    by (simp add: scen_result_def)
  have m1: "fst (main normal_args scen_env scen_lp scen_world) = Inr 0"
    by code_simp
  have m2: "printed_outputs (snd (main normal_args scen_env scen_lp scen_world))
       = [(''has_changes'', ''true'')]"
    by code_simp
  show ?thesis
    by (intro conjI h1 h2 h3 c1 c2 v1 v2 m1 m2)
qed

text \<open>
  Claim C3, as the code has it. The lookups are made for the nicks as they are written.
  For every written nick whose own lookup raises an error other than not-found, the outcome
  of that nick is \<^verbatim>\<open>error\<close>, it is in \<^verbatim>\<open>error_nicks\<close> and in no other set, every feed that
  bears this written nick is in the list of valid feeds, and no removed entry bears it. A
  feed that bears another spelling of the identifier is decided by the lookup made for that
  spelling.
\<close>

theorem lookup_error_keeps:
  assumes "validate_memberships feeds lp = Inr v"
    and "get_unique_nicks feeds = Inr nicks"
    and "get_ubuntu_members lp = Inr ubuntu_members"
  shows "\<forall>s\<in>nicks.
           lower s \<notin> ubuntu_members
           \<and> people lp (length (lookups_before ubuntu_members nicks s)) (lower s) = ApiError \<longrightarrow>
           outcome lp ubuntu_members nicks s = Some ''error''
           \<and> s \<in> error_nicks (cats v)
           \<and> s \<notin> non_member_nicks (cats v) \<union> not_found_nicks (cats v)
           \<and> (\<forall>f\<in>set feeds. nick_of f = JStr s \<longrightarrow> f \<in> set (valid_feeds v))
           \<and> (\<forall>r\<in>set (removed_entries v). nick_of r \<noteq> JStr s)"
proof (intro ballI impI)
  fix s
  assume s: "s \<in> nicks"
    and a: "lower s \<notin> ubuntu_members
            \<and> people lp (length (lookups_before ubuntu_members nicks s)) (lower s) = ApiError"
  note run = assms
  note c = validate_partition(1,2) [OF run]
  from s a have o: "outcome lp ubuntu_members nicks s = Some ''error''"
    by (simp add: outcome_cases)
  then have e: "s \<in> error_nicks (cats v)"
    and n: "s \<notin> non_member_nicks (cats v) \<union> not_found_nicks (cats v)"
    using c by (simp_all add: categorize_outcome)
  have keep: "\<not> removable lp ubuntu_members nicks f" if "nick_of f = JStr s" for f
    using that a by (auto simp: removable_cases)
  have k: "\<forall>f\<in>set feeds. nick_of f = JStr s \<longrightarrow> f \<in> set (valid_feeds v)"
    using keep by (auto simp: kept_iff [OF run])
  have r: "\<forall>r\<in>set (removed_entries v). nick_of r \<noteq> JStr s"
    using keep by (auto simp: removed_iff [OF run] nick_of_tagged)
  from o e n k r show "outcome lp ubuntu_members nicks s = Some ''error''
           \<and> s \<in> error_nicks (cats v)
           \<and> s \<notin> non_member_nicks (cats v) \<union> not_found_nicks (cats v)
           \<and> (\<forall>f\<in>set feeds. nick_of f = JStr s \<longrightarrow> f \<in> set (valid_feeds v))
           \<and> (\<forall>r\<in>set (removed_entries v). nick_of r \<noteq> JStr s)"
    by blast
qed

theorem lookup_error_keeps_witness:
  "validate_memberships case_feeds flaky_lp = Inr case_result
   \<and> get_unique_nicks case_feeds = Inr {''Bob'', ''bob''}
   \<and> get_ubuntu_members flaky_lp = Inr {}
   \<and> lower ''Bob'' \<notin> {}
   \<and> people flaky_lp (length (lookups_before {} {''Bob'', ''bob''} ''Bob'')) (lower ''Bob'') = ApiError
   \<and> outcome flaky_lp {} {''Bob'', ''bob''} ''Bob'' = Some ''error''
   \<and> ''Bob'' \<in> error_nicks (cats case_result)
   \<and> feed_Bob \<in> set (valid_feeds case_result)"
proof -
  let ?nicks = "{''Bob'', ''bob''}"
  have h1: "validate_memberships case_feeds flaky_lp = Inr case_result"
    by code_simp
  have h2: "get_unique_nicks case_feeds = Inr ?nicks"
    by code_simp
  have h3: "get_ubuntu_members flaky_lp = Inr {}"
    by code_simp
  have i: "''Bob'' \<in> ?nicks" by simp
  have a1: "lower ''Bob'' \<notin> {}" by simp
  have a2: "people flaky_lp (length (lookups_before {} ?nicks ''Bob'')) (lower ''Bob'') = ApiError"
    by code_simp
  have m: "feed_Bob \<in> set case_feeds" by (simp add: case_feeds_def)
  have n: "nick_of feed_Bob = JStr ''Bob''" by code_simp
  note t = lookup_error_keeps [OF h1 h2 h3]
  from t i a1 a2 have c: "outcome flaky_lp {} ?nicks ''Bob'' = Some ''error''
      \<and> ''Bob'' \<in> error_nicks (cats case_result)
      \<and> ''Bob'' \<notin> non_member_nicks (cats case_result) \<union> not_found_nicks (cats case_result)
      \<and> (\<forall>f\<in>set case_feeds. nick_of f = JStr ''Bob'' \<longrightarrow> f \<in> set (valid_feeds case_result))
      \<and> (\<forall>r\<in>set (removed_entries case_result). nick_of r \<noteq> JStr ''Bob'')"
    by blast
  from c have c1: "outcome flaky_lp {} ?nicks ''Bob'' = Some ''error''"
    and c2: "''Bob'' \<in> error_nicks (cats case_result)"
    by blast+
  from c m n have c3: "feed_Bob \<in> set (valid_feeds case_result)" by blast
  show ?thesis
    by (intro conjI h1 h2 h3 a1 a2 c1 c2 c3)
qed

text \<open>
  With the nicks \<^verbatim>\<open>Bob\<close> and \<^verbatim>\<open>bob\<close> and a service whose first lookup raises, the lookup
  of the identifier \<^verbatim>\<open>bob\<close> raises once, and the feed that bears \<^verbatim>\<open>bob\<close> is removed all the
  same, by the second lookup.
\<close>

theorem lookup_error_counterexample:
  "validate_memberships case_feeds flaky_lp = Inr case_result
   \<and> lookups (cats case_result) = [''bob'', ''bob'']
   \<and> people flaky_lp 0 ''bob'' = ApiError
   \<and> nick_of feed_bob = JStr ''bob''
   \<and> feed_bob \<in> set case_feeds
   \<and> feed_bob \<notin> set (valid_feeds case_result)
   \<and> removed_entries case_result = [feed_bob @ [(''reason'', JStr ''not_member'')]]"
  by code_simp

text \<open>
  Claim C4, as the code has it. \<^verbatim>\<open>get_unique_nicks\<close> collects the nicks as they are written,
  so one lookup is made for every distinct written nick that is to be checked and is no
  member: an identifier is looked up as many times as it has spellings among the nicks.
  Two feeds with the same written nick have the same outcome and are kept or removed
  together; two feeds whose nicks differ only in case have the same outcome when the service
  answers every lookup of that identifier the same way.
\<close>

theorem one_lookup_per_written_nick:
  assumes "validate_memberships feeds lp = Inr v"
    and "get_unique_nicks feeds = Inr nicks"
    and "get_ubuntu_members lp = Inr ubuntu_members"
  shows "lookups (cats v)
           = map lower (filter (\<lambda>n. lower n \<notin> ubuntu_members) (sorted_list_of_set nicks))
       \<and> (\<forall>ident. count_list (lookups (cats v)) ident
                    = card {n \<in> nicks. lower n = ident \<and> ident \<notin> ubuntu_members})
       \<and> (\<forall>f\<in>set feeds. \<forall>g\<in>set feeds. nick_of f = nick_of g \<longrightarrow>
             feed_outcome lp ubuntu_members nicks f = feed_outcome lp ubuntu_members nicks g
             \<and> (f \<in> set (valid_feeds v) \<longleftrightarrow> g \<in> set (valid_feeds v)))
       \<and> (\<forall>f\<in>set feeds. \<forall>g\<in>set feeds. \<forall>s t.
             nick_of f = JStr s \<and> nick_of g = JStr t \<and> lower s = lower t
             \<and> (\<forall>i j. people lp i (lower s) = people lp j (lower s)) \<longrightarrow>
             feed_outcome lp ubuntu_members nicks f = feed_outcome lp ubuntu_members nicks g
             \<and> (f \<in> set (valid_feeds v) \<longleftrightarrow> g \<in> set (valid_feeds v)))"
proof -
  note run = assms
  have fin: "finite nicks" using assms(2) by (rule get_unique_nicks_finite)
  have 1: "lookups (cats v)
           = map lower (filter (\<lambda>n. lower n \<notin> ubuntu_members) (sorted_list_of_set nicks))"
    by (rule validate_lookups [OF run])
  have 2: "\<forall>ident. count_list (lookups (cats v)) ident
                    = card {n \<in> nicks. lower n = ident \<and> ident \<notin> ubuntu_members}"
    unfolding 1 using count_lookups [OF fin] by blast
  have same: "f \<in> set (valid_feeds v) \<longleftrightarrow> g \<in> set (valid_feeds v)"
    if "f \<in> set feeds" "g \<in> set feeds"
      "feed_outcome lp ubuntu_members nicks f = feed_outcome lp ubuntu_members nicks g" for f g
    using that by (simp add: kept_iff [OF run] removable_def)
  have 3: "\<forall>f\<in>set feeds. \<forall>g\<in>set feeds. nick_of f = nick_of g \<longrightarrow>
             feed_outcome lp ubuntu_members nicks f = feed_outcome lp ubuntu_members nicks g
             \<and> (f \<in> set (valid_feeds v) \<longleftrightarrow> g \<in> set (valid_feeds v))"
  proof (intro ballI impI)
    fix f g assume fg: "f \<in> set feeds" "g \<in> set feeds" "nick_of f = nick_of g"
    then have "feed_outcome lp ubuntu_members nicks f = feed_outcome lp ubuntu_members nicks g"
      by (simp add: feed_outcome_def)
    with same [OF fg(1,2)] show "feed_outcome lp ubuntu_members nicks f
        = feed_outcome lp ubuntu_members nicks g
        \<and> (f \<in> set (valid_feeds v) \<longleftrightarrow> g \<in> set (valid_feeds v))"
      by blast
  qed
  have 4: "\<forall>f\<in>set feeds. \<forall>g\<in>set feeds. \<forall>s t.
             nick_of f = JStr s \<and> nick_of g = JStr t \<and> lower s = lower t
             \<and> (\<forall>i j. people lp i (lower s) = people lp j (lower s)) \<longrightarrow>
             feed_outcome lp ubuntu_members nicks f = feed_outcome lp ubuntu_members nicks g
             \<and> (f \<in> set (valid_feeds v) \<longleftrightarrow> g \<in> set (valid_feeds v))"
  proof (intro ballI allI impI)
    fix f g s t
    assume fg: "f \<in> set feeds" "g \<in> set feeds"
      and h: "nick_of f = JStr s \<and> nick_of g = JStr t \<and> lower s = lower t
             \<and> (\<forall>i j. people lp i (lower s) = people lp j (lower s))"
    from h have "outcome lp ubuntu_members nicks s = outcome lp ubuntu_members nicks t"
      using outcome_case_variants [OF assms(2) fg, of s t lp ubuntu_members] by blast
    with h have "feed_outcome lp ubuntu_members nicks f = feed_outcome lp ubuntu_members nicks g"
      by (simp add: feed_outcome_def)
    with same [OF fg] show "feed_outcome lp ubuntu_members nicks f
        = feed_outcome lp ubuntu_members nicks g
        \<and> (f \<in> set (valid_feeds v) \<longleftrightarrow> g \<in> set (valid_feeds v))"
      by blast
  qed
  from 1 2 3 4 show ?thesis by blast
qed

theorem one_lookup_per_written_nick_witness:
  "validate_memberships err_feeds scen_lp = Inr err_result
   \<and> get_unique_nicks err_feeds = Inr {''alice'', ''Dave'', ''dave''}
   \<and> get_ubuntu_members scen_lp = Inr {''alice''}
   \<and> lookups (cats err_result)
       = map lower (filter (\<lambda>n. lower n \<notin> {''alice''})
           (sorted_list_of_set {''alice'', ''Dave'', ''dave''}))
   \<and> lookups (cats err_result) = [''dave'', ''dave'']
   \<and> count_list (lookups (cats err_result)) ''dave''
       = card {n \<in> {''alice'', ''Dave'', ''dave''}. lower n = ''dave'' \<and> ''dave'' \<notin> {''alice''}}
   \<and> feed_outcome scen_lp {''alice''} {''alice'', ''Dave'', ''dave''} feed_Dave
       = feed_outcome scen_lp {''alice''} {''alice'', ''Dave'', ''dave''} feed_dave"
proof -
  let ?nicks = "{''alice'', ''Dave'', ''dave''}"
  have h1: "validate_memberships err_feeds scen_lp = Inr err_result"
    by code_simp
  have h2: "get_unique_nicks err_feeds = Inr ?nicks"
    by code_simp
  have h3: "get_ubuntu_members scen_lp = Inr {''alice''}"
    by code_simp
  note t = one_lookup_per_written_nick [OF h1 h2 h3]
  have m: "feed_Dave \<in> set err_feeds" "feed_dave \<in> set err_feeds"
    by (simp_all add: err_feeds_def)
  have n: "nick_of feed_Dave = JStr ''Dave''" "nick_of feed_dave = JStr ''dave''"
    by code_simp+
  have l: "lower ''Dave'' = lower ''dave''"
    by code_simp
  have st: "\<forall>i j. people scen_lp i (lower ''Dave'') = people scen_lp j (lower ''Dave'')"
    by (simp add: scen_lp_def scen_people_def)
  from t have c1: "lookups (cats err_result)
       = map lower (filter (\<lambda>n. lower n \<notin> {''alice''}) (sorted_list_of_set ?nicks))"
    by (rule conjunct1)
  have c1': "lookups (cats err_result) = [''dave'', ''dave'']"
    by (simp add: err_result_def)
  from t have "\<forall>ident. count_list (lookups (cats err_result)) ident
      = card {n \<in> ?nicks. lower n = ident \<and> ident \<notin> {''alice''}}"
    by (rule conjunct1 [OF conjunct2])
  then have c2: "count_list (lookups (cats err_result)) ''dave''
       = card {n \<in> ?nicks. lower n = ''dave'' \<and> ''dave'' \<notin> {''alice''}}"
    by (rule spec)
  from t m n l st have c3: "feed_outcome scen_lp {''alice''} ?nicks feed_Dave
      = feed_outcome scen_lp {''alice''} ?nicks feed_dave"
    by blast
  show ?thesis
    by (intro conjI h1 h2 h3 c1 c1' c2 c3)
qed

text \<open>
  With the nicks \<^verbatim>\<open>Bob\<close> and \<^verbatim>\<open>bob\<close> the identifier \<^verbatim>\<open>bob\<close> is looked up twice; when the
  first lookup fails and the second succeeds, the feed of \<^verbatim>\<open>Bob\<close> is kept with outcome
  \<^verbatim>\<open>error\<close> and the feed of \<^verbatim>\<open>bob\<close> is removed as \<^verbatim>\<open>not_member\<close>.
\<close>

theorem one_lookup_per_distinct_identifier_counterexample:
  "lower ''Bob'' = lower ''bob''
   \<and> validate_memberships case_feeds flaky_lp = Inr case_result
   \<and> lookups (cats case_result) = [''bob'', ''bob'']
   \<and> count_list (lookups (cats case_result)) ''bob'' = 2
   \<and> nick_of feed_Bob = JStr ''Bob''
   \<and> nick_of feed_bob = JStr ''bob''
   \<and> feed_outcome flaky_lp {} {''Bob'', ''bob''} feed_Bob = Some ''error''
   \<and> feed_outcome flaky_lp {} {''Bob'', ''bob''} feed_bob = Some ''not_member''
   \<and> valid_feeds case_result = [feed_Bob]
   \<and> removed_entries case_result = [feed_bob @ [(''reason'', JStr ''not_member'')]]"
  by code_simp

text \<open>
  Claim C5, as the code has it. \<^verbatim>\<open>save_feeds\<close> opens the data file with mode \<^verbatim>\<open>w\<close>, which
  empties it, and writes into it directly. In a normal run that finds feeds to remove, when
  the device accepts only \<open>k\<close> more bytes and the output is longer, \<^verbatim>\<open>save_feeds\<close> raises,
  the exception leaves \<^verbatim>\<open>main\<close>, and the data file holds the first \<open>k\<close> bytes of the new
  output and nothing of its former content. No other file changes and no signal is printed.
\<close>

theorem save_feeds_failed_write:
  assumes "check a = []" and "\<not> dry_run a"
    and "load_feeds e w = Inr feeds"
    and "validate_memberships feeds lp = Inr v"
    and "removed_entries v \<noteq> []"
    and "\<forall>r\<in>set (removed_entries v). map_of r ''name'' \<noteq> None"
    and "space_left w = Some k"
    and "k < length (encoded_prefix (utf8 e) (save_output e (valid_feeds v)))"
  shows "fst (save_feeds e (valid_feeds v) w) = Inl WriteError
       \<and> main a e lp w = (Inl WriteError, snd (save_feeds e (valid_feeds v) w))
       \<and> files (snd (main a e lp w)) (resolve w FEEDS_FILE)
           = Some (take k (encoded_prefix (utf8 e) (save_output e (valid_feeds v))))
       \<and> (\<forall>f. f \<noteq> resolve w FEEDS_FILE \<longrightarrow> files (snd (main a e lp w)) f = files w f)
       \<and> printed_outputs (snd (main a e lp w)) = printed_outputs w"
proof -
  let ?s = "save_feeds e (valid_feeds v) w"
  note eff = save_feeds_effect [of e "valid_feeds v" w]
  from assms(7,8) have nf: "\<not> fits (space_left w) (encoded_prefix (utf8 e) (save_output e (valid_feeds v)))"
    by (simp add: fits_def)
  with eff have s: "fst ?s = Inl WriteError" by simp
  have "print_removed (removed_entries v) = Inr ()"
    using assms(4,6) by (rule print_removed_run)
  with assms(1-5) s have m: "main a e lp w = (Inl WriteError, snd ?s)"
    by (cases ?s) (simp add: main_def)
  from eff assms(7) have f: "files (snd ?s) (resolve w FEEDS_FILE)
      = Some (take k (encoded_prefix (utf8 e) (save_output e (valid_feeds v))))"
    by (simp add: accepted_def)
  from s m f eff show ?thesis by simp
qed

theorem save_feeds_failed_write_witness:
  "check normal_args = []
   \<and> load_feeds scen_env small_world = Inr scen_feeds
   \<and> validate_memberships scen_feeds scen_lp = Inr scen_result
   \<and> space_left small_world = Some 3
   \<and> encoded_prefix (utf8 scen_env) (save_output scen_env (valid_feeds scen_result))
       = ''alice'' @ newline
   \<and> files small_world (resolve small_world FEEDS_FILE) = Some ''three feeds''
   \<and> fst (save_feeds scen_env (valid_feeds scen_result) small_world) = Inl WriteError
   \<and> fst (main normal_args scen_env scen_lp small_world) = Inl WriteError
   \<and> files (snd (main normal_args scen_env scen_lp small_world)) (resolve small_world FEEDS_FILE)
       = Some (take 3 (encoded_prefix (utf8 scen_env)
                 (save_output scen_env (valid_feeds scen_result))))
   \<and> files (snd (main normal_args scen_env scen_lp small_world)) (resolve small_world FEEDS_FILE)
       = Some ''ali''
   \<and> printed_outputs (snd (main normal_args scen_env scen_lp small_world)) = []"
proof -
  have h1: "check normal_args = []" and h2: "\<not> dry_run normal_args"
    by (simp_all add: normal_args_def)
  have h3: "load_feeds scen_env small_world = Inr scen_feeds"
    by code_simp
  have h4: "validate_memberships scen_feeds scen_lp = Inr scen_result"
    by code_simp
  have h5: "removed_entries scen_result \<noteq> []"
    by (simp add: scen_result_def)
  have h6: "\<forall>r\<in>set (removed_entries scen_result). map_of r ''name'' \<noteq> None"
    by (simp add: scen_result_def feed_bob_def feed_carol_def)
  have h7: "space_left small_world = Some 3"
    by (simp add: small_world_def)
  have b: "encoded_prefix (utf8 scen_env) (save_output scen_env (valid_feeds scen_result))
       = ''alice'' @ newline"
    by code_simp
  have h8: "3 < length (encoded_prefix (utf8 scen_env)
                 (save_output scen_env (valid_feeds scen_result)))"
    unfolding b by (simp add: newline_def)
  have o: "files small_world (resolve small_world FEEDS_FILE) = Some ''three feeds''"
    by code_simp
  have p: "printed_outputs small_world = []"
    by (simp add: small_world_def)
  note t = save_feeds_failed_write [OF h1 h2 h3 h4 h5 h6 h7 h8]
  from t have c1: "fst (save_feeds scen_env (valid_feeds scen_result) small_world) = Inl WriteError"
    by (rule conjunct1)
  from t have "main normal_args scen_env scen_lp small_world
      = (Inl WriteError, snd (save_feeds scen_env (valid_feeds scen_result) small_world))"
    by (rule conjunct1 [OF conjunct2])
  then have c2: "fst (main normal_args scen_env scen_lp small_world) = Inl WriteError"
    by simp
  from t have c3: "files (snd (main normal_args scen_env scen_lp small_world))
        (resolve small_world FEEDS_FILE)
       = Some (take 3 (encoded_prefix (utf8 scen_env)
                 (save_output scen_env (valid_feeds scen_result))))"
    by (rule conjunct1 [OF conjunct2 [OF conjunct2]])
  have tk: "take 3 (''alice'' @ newline) = ''ali''" by simp
  from c3 have c4: "files (snd (main normal_args scen_env scen_lp small_world))
        (resolve small_world FEEDS_FILE) = Some ''ali''"
    unfolding b tk .
  from t have "printed_outputs (snd (main normal_args scen_env scen_lp small_world))
      = printed_outputs small_world"
    by (rule conjunct2 [OF conjunct2 [OF conjunct2 [OF conjunct2]]])
  then have c5: "printed_outputs (snd (main normal_args scen_env scen_lp small_world)) = []"
    unfolding p .
  show ?thesis
    by (intro conjI h1 h3 h4 h7 b o c1 c2 c3 c4 c5)
qed

text \<open>
  When the device is full, the normal run of the scenario raises in \<^verbatim>\<open>save_feeds\<close> and
  leaves the data file empty.
\<close>

theorem save_feeds_counterexample:
  "files full_world (resolve full_world FEEDS_FILE) = Some ''three feeds''
   \<and> space_left full_world = Some 0
   \<and> validate_memberships scen_feeds scen_lp = Inr scen_result
   \<and> fst (save_feeds scen_env (valid_feeds scen_result) full_world) = Inl WriteError
   \<and> files (snd (save_feeds scen_env (valid_feeds scen_result) full_world))
        (resolve full_world FEEDS_FILE) = Some []
   \<and> fst (main normal_args scen_env scen_lp full_world) = Inl WriteError
   \<and> files (snd (main normal_args scen_env scen_lp full_world)) (resolve full_world FEEDS_FILE)
       = Some []"
  by code_simp



text \<open>
  Claim C7. A nick that is in \<^verbatim>\<open>ALLOWED_NICKS\<close> after \<^verbatim>\<open>lower()\<close> is never among the nicks
  to check, whatever the team and the lookups answer: it has no outcome, no lookup is made
  for its identifier, every feed that bears it is kept and no removed entry bears it.
\<close>

theorem allowed_nick_kept:
  assumes "validate_memberships feeds lp = Inr v"
    and "get_unique_nicks feeds = Inr nicks"
    and "get_ubuntu_members lp = Inr ubuntu_members"
    and "lower n \<in> lower ` ALLOWED_NICKS"
  shows "n \<notin> nicks
       \<and> outcome lp ubuntu_members nicks n = None
       \<and> lower n \<notin> set (lookups (cats v))
       \<and> (\<forall>f\<in>set feeds. nick_of f = JStr n \<longrightarrow> f \<in> set (valid_feeds v))
       \<and> (\<forall>e\<in>set (removed_entries v). nick_of e \<noteq> JStr n)"
proof -
  note run = assms(1-3)
  have nn: "\<And>s. s \<in> nicks \<Longrightarrow> lower s \<noteq> lower n"
    using assms(4) by (auto simp: nicks_to_check [OF assms(2)])
  then have 1: "n \<notin> nicks" by blast
  then have 2: "outcome lp ubuntu_members nicks n = None" by (simp add: outcome_def)
  have 3: "lower n \<notin> set (lookups (cats v))"
  proof -
    have "set (sorted_list_of_set nicks) = nicks"
      using get_unique_nicks_finite [OF assms(2)] by simp
    then have "set (lookups (cats v)) \<subseteq> lower ` nicks"
      by (auto simp: validate_lookups [OF run])
    moreover have "lower n \<notin> lower ` nicks" using nn by force
    ultimately show ?thesis by blast
  qed
  have keep: "\<not> removable lp ubuntu_members nicks f" if "nick_of f = JStr n" for f
    using that 1 by (auto simp: removable_cases)
  have 4: "\<forall>f\<in>set feeds. nick_of f = JStr n \<longrightarrow> f \<in> set (valid_feeds v)"
    using keep by (auto simp: kept_iff [OF run])
  have 5: "\<forall>e\<in>set (removed_entries v). nick_of e \<noteq> JStr n"
    using keep by (auto simp: removed_iff [OF run] nick_of_tagged)
  from 1 2 3 4 5 show ?thesis by blast
qed

theorem allowed_nick_kept_witness:
  "validate_memberships allow_feeds scen_lp = Inr allow_result
   \<and> get_unique_nicks allow_feeds = Inr {''bob''}
   \<and> get_ubuntu_members scen_lp = Inr {''alice''}
   \<and> lower ''UWN'' \<in> lower ` ALLOWED_NICKS
   \<and> ''UWN'' \<notin> {''bob''}
   \<and> outcome scen_lp {''alice''} {''bob''} ''UWN'' = None
   \<and> lower ''UWN'' \<notin> set (lookups (cats allow_result))
   \<and> feed_uwn \<in> set (valid_feeds allow_result)"
proof -
  have h1: "validate_memberships allow_feeds scen_lp = Inr allow_result"
    by code_simp
  have h2: "get_unique_nicks allow_feeds = Inr {''bob''}"
    by code_simp
  have h3: "get_ubuntu_members scen_lp = Inr {''alice''}"
    by code_simp
  have h4: "lower ''UWN'' \<in> lower ` ALLOWED_NICKS"
    by code_simp
  note t = allowed_nick_kept [OF h1 h2 h3 h4]
  have m: "feed_uwn \<in> set allow_feeds" by (simp add: allow_feeds_def)
  have n: "nick_of feed_uwn = JStr ''UWN''" by code_simp
  from t have c1: "''UWN'' \<notin> {''bob''}"
    and c2: "outcome scen_lp {''alice''} {''bob''} ''UWN'' = None"
    and c3: "lower ''UWN'' \<notin> set (lookups (cats allow_result))" by blast+
  from t m n have c4: "feed_uwn \<in> set (valid_feeds allow_result)" by blast
  show ?thesis
    by (intro conjI h1 h2 h3 h4 c1 c2 c3 c4)
qed

text \<open>
  Claim C8. For a nick whose lower-case form is in the set of members, no lookup of that
  identifier is made, whatever the lookups would answer: its outcome is \<^verbatim>\<open>member\<close>, every
  feed that bears it is kept, no removed entry bears it, and \<^verbatim>\<open>check_single_nick\<close> answers
  \<^verbatim>\<open>member\<close> without a lookup.
\<close>

theorem member_short_circuit:
  assumes "validate_memberships feeds lp = Inr v"
    and "get_unique_nicks feeds = Inr nicks"
    and "get_ubuntu_members lp = Inr ubuntu_members"
    and "lower n \<in> ubuntu_members"
  shows "lower n \<notin> set (lookups (cats v))
       \<and> (n \<in> nicks \<longrightarrow> outcome lp ubuntu_members nicks n = Some ''member'')
       \<and> (\<forall>f\<in>set feeds. nick_of f = JStr n \<longrightarrow> f \<in> set (valid_feeds v))
       \<and> (\<forall>e\<in>set (removed_entries v). nick_of e \<noteq> JStr n)
       \<and> check_single_nick lp calls n ubuntu_members = (''member'', calls)"
proof -
  note run = assms(1-3)
  have 1: "lower n \<notin> set (lookups (cats v))"
    using assms(4) by (auto simp: validate_lookups [OF run])
  have 2: "n \<in> nicks \<longrightarrow> outcome lp ubuntu_members nicks n = Some ''member''"
    using assms(4) by (simp add: outcome_cases)
  have keep: "\<not> removable lp ubuntu_members nicks f" if "nick_of f = JStr n" for f
    using that assms(4) by (auto simp: removable_cases)
  have 3: "\<forall>f\<in>set feeds. nick_of f = JStr n \<longrightarrow> f \<in> set (valid_feeds v)"
    using keep by (auto simp: kept_iff [OF run])
  have 4: "\<forall>e\<in>set (removed_entries v). nick_of e \<noteq> JStr n"
    using keep by (auto simp: removed_iff [OF run] nick_of_tagged)
  have 5: "check_single_nick lp calls n ubuntu_members = (''member'', calls)"
    using assms(4) by (simp add: check_single_nick_def)
  from 1 2 3 4 5 show ?thesis by blast
qed

theorem member_short_circuit_witness:
  "validate_memberships scen_feeds scen_lp = Inr scen_result
   \<and> get_unique_nicks scen_feeds = Inr {''alice'', ''bob'', ''carol''}
   \<and> get_ubuntu_members scen_lp = Inr {''alice''}
   \<and> lower ''alice'' \<in> {''alice''}
   \<and> lower ''alice'' \<notin> set (lookups (cats scen_result))
   \<and> outcome scen_lp {''alice''} {''alice'', ''bob'', ''carol''} ''alice'' = Some ''member''
   \<and> feed_alice \<in> set (valid_feeds scen_result)
   \<and> check_single_nick scen_lp [''bob''] ''alice'' {''alice''} = (''member'', [''bob''])"
proof -
  let ?nicks = "{''alice'', ''bob'', ''carol''}"
  have h1: "validate_memberships scen_feeds scen_lp = Inr scen_result"
    by code_simp
  have h2: "get_unique_nicks scen_feeds = Inr ?nicks"
    by code_simp
  have h3: "get_ubuntu_members scen_lp = Inr {''alice''}"
    by code_simp
  have h4: "lower ''alice'' \<in> {''alice''}"
    by code_simp
  note t = member_short_circuit [OF h1 h2 h3 h4, of "[''bob'']"]
  have m: "feed_alice \<in> set scen_feeds" by (simp add: scen_feeds_def)
  have n: "nick_of feed_alice = JStr ''alice''" by code_simp
  have i: "''alice'' \<in> ?nicks" by simp
  from t have c1: "lower ''alice'' \<notin> set (lookups (cats scen_result))"
    and c5: "check_single_nick scen_lp [''bob''] ''alice'' {''alice''} = (''member'', [''bob''])"
    by blast+
  from t i have c2: "outcome scen_lp {''alice''} ?nicks ''alice'' = Some ''member''" by blast
  from t m n have c3: "feed_alice \<in> set (valid_feeds scen_result)" by blast
  show ?thesis
    by (intro conjI h1 h2 h3 h4 c1 c2 c3 c5)
qed

text \<open>
  Claim C9. What \<^verbatim>\<open>save_feeds\<close> followed by \<^verbatim>\<open>load_feeds\<close> gives, for every list of feeds.
  When the codec accepts every piece, the device accepts the bytes and the parser reads
  these bytes back as the list, the data file holds exactly these bytes and loading it
  gives the list again. When the codec refuses a piece, as UTF-8 refuses the lone surrogate
  that \<^verbatim>\<open>json.load\<close> accepts and \<^verbatim>\<open>ensure_ascii=False\<close> lets through, \<^verbatim>\<open>save_feeds\<close> raises
  and the data file, emptied on opening, holds only the bytes of the pieces before it.
\<close>

theorem save_then_load:
  "(\<forall>bytes. encode_all (utf8 e) (save_output e feeds) = Some bytes
       \<and> fits (space_left w) bytes \<and> json_load e bytes = Some feeds \<longrightarrow>
       fst (save_feeds e feeds w) = Inr ()
       \<and> files (snd (save_feeds e feeds w)) (resolve w FEEDS_FILE) = Some bytes
       \<and> load_feeds e (snd (save_feeds e feeds w)) = Inr feeds)
   \<and> (encode_all (utf8 e) (save_output e feeds) = None \<longrightarrow>
       (fst (save_feeds e feeds w) = Inl UnicodeEncodeError
        \<or> fst (save_feeds e feeds w) = Inl WriteError)
       \<and> files (snd (save_feeds e feeds w)) (resolve w FEEDS_FILE)
           = Some (accepted (space_left w) (encoded_prefix (utf8 e) (save_output e feeds))))"
proof (intro conjI allI impI)
  note eff = save_feeds_effect [of e feeds w]
  {
    fix bytes
    assume a: "encode_all (utf8 e) (save_output e feeds) = Some bytes
       \<and> fits (space_left w) bytes \<and> json_load e bytes = Some feeds"
    then have p: "encoded_prefix (utf8 e) (save_output e feeds) = bytes"
      by (simp add: encode_all_prefix)
    from a have acc: "accepted (space_left w) bytes = bytes"
      by (auto simp: accepted_def fits_def split: option.splits)
    from eff a p show "fst (save_feeds e feeds w) = Inr ()" by simp
    from eff p acc show f: "files (snd (save_feeds e feeds w)) (resolve w FEEDS_FILE) = Some bytes"
      by simp
    from eff have "resolve (snd (save_feeds e feeds w)) = resolve w" by simp
    with f a show "load_feeds e (snd (save_feeds e feeds w)) = Inr feeds"
      by (simp add: load_feeds_def)
  }
  {
    assume "encode_all (utf8 e) (save_output e feeds) = None"
    with eff show "fst (save_feeds e feeds w) = Inl UnicodeEncodeError
        \<or> fst (save_feeds e feeds w) = Inl WriteError"
      by simp
    from eff show "files (snd (save_feeds e feeds w)) (resolve w FEEDS_FILE)
           = Some (accepted (space_left w) (encoded_prefix (utf8 e) (save_output e feeds)))"
      by simp
  }
qed

theorem save_then_load_witness:
  "encode_all (utf8 scen_env) (save_output scen_env [feed_alice]) = Some (''alice'' @ newline)
   \<and> fits (space_left scen_world) (''alice'' @ newline)
   \<and> json_load scen_env (''alice'' @ newline) = Some [feed_alice]
   \<and> fst (save_feeds scen_env [feed_alice] scen_world) = Inr ()
   \<and> load_feeds scen_env (snd (save_feeds scen_env [feed_alice] scen_world)) = Inr [feed_alice]
   \<and> files scen_world (resolve scen_world FEEDS_FILE) = Some ''three feeds''
   \<and> encode_all (utf8 strict_env) (save_output strict_env scen_feeds) = None
   \<and> encoded_prefix (utf8 strict_env) (save_output strict_env scen_feeds) = ''alice''
   \<and> fst (save_feeds strict_env scen_feeds scen_world) = Inl UnicodeEncodeError
   \<and> files (snd (save_feeds strict_env scen_feeds scen_world)) (resolve scen_world FEEDS_FILE)
       = Some (accepted (space_left scen_world)
                 (encoded_prefix (utf8 strict_env) (save_output strict_env scen_feeds)))
   \<and> files (snd (save_feeds strict_env scen_feeds scen_world)) (resolve scen_world FEEDS_FILE)
       = Some ''alice''
   \<and> load_feeds strict_env (snd (save_feeds strict_env scen_feeds scen_world)) = Inl LoadError"
proof -
  have a1: "encode_all (utf8 scen_env) (save_output scen_env [feed_alice])
      = Some (''alice'' @ newline)"
    by code_simp
  have a2: "fits (space_left scen_world) (''alice'' @ newline)"
    by code_simp
  have a3: "json_load scen_env (''alice'' @ newline) = Some [feed_alice]"
    by code_simp
  note t1 = save_then_load [of scen_env "[feed_alice]" scen_world]
  from t1 a1 a2 a3 have c1: "fst (save_feeds scen_env [feed_alice] scen_world) = Inr ()"
    and c2: "load_feeds scen_env (snd (save_feeds scen_env [feed_alice] scen_world))
      = Inr [feed_alice]"
    by blast+
  have o: "files scen_world (resolve scen_world FEEDS_FILE) = Some ''three feeds''"
    by code_simp
  have b1: "encode_all (utf8 strict_env) (save_output strict_env scen_feeds) = None"
    by code_simp
  have b2: "encoded_prefix (utf8 strict_env) (save_output strict_env scen_feeds) = ''alice''"
    by code_simp
  have b3: "fst (save_feeds strict_env scen_feeds scen_world) = Inl UnicodeEncodeError"
    by code_simp
  note t2 = save_then_load [of strict_env scen_feeds scen_world]
  from t2 b1 have c3: "files (snd (save_feeds strict_env scen_feeds scen_world))
        (resolve scen_world FEEDS_FILE)
       = Some (accepted (space_left scen_world)
                 (encoded_prefix (utf8 strict_env) (save_output strict_env scen_feeds)))"
    by blast
  have acc: "accepted (space_left scen_world) ''alice'' = ''alice''"
    by code_simp
  from c3 have c4: "files (snd (save_feeds strict_env scen_feeds scen_world))
        (resolve scen_world FEEDS_FILE) = Some ''alice''"
    unfolding b2 acc .
  have c5: "load_feeds strict_env (snd (save_feeds strict_env scen_feeds scen_world))
      = Inl LoadError"
    by code_simp
  show ?thesis
    by (intro conjI a1 a2 a3 c1 c2 o b1 b2 b3 c3 c4 c5)
qed

text \<open>
  Claim C10. Let every nick be a value on which the two loops do not raise, and let the
  team be fetched. Then \<^verbatim>\<open>validate_memberships\<close> returns, and a feed without the key
  \<^verbatim>\<open>nick\<close>, or whose nick is the empty string, is in the list of valid feeds itself,
  whatever the team and the lookups answer. It is never classified: it has no outcome, the
  empty string is no nick to check and is never looked up, and the nicks to check are those
  of the feeds without these feeds.
\<close>

theorem empty_nick_kept:
  assumes "\<forall>g\<in>set feeds. lowerable (nick_of g) \<and> hashable (nick_of g)"
    and "participants lp = Some names"
    and "f \<in> set feeds"
    and "map_of f ''nick'' = None \<or> map_of f ''nick'' = Some (JStr [])"
  shows "\<exists>v nicks. validate_memberships feeds lp = Inr v
       \<and> get_unique_nicks feeds = Inr nicks
       \<and> f \<in> set (valid_feeds v)
       \<and> feed_outcome lp (set names) nicks f = None
       \<and> [] \<notin> nicks
       \<and> [] \<notin> set (lookups (cats v))
       \<and> get_unique_nicks (filter (\<lambda>g. nick_of g \<noteq> JStr []) feeds) = Inr nicks"
proof -
  from assms(1,2) obtain v where v: "validate_memberships feeds lp = Inr v"
    using validate_memberships_returns [of feeds lp] by auto
  from v obtain nicks M where r: "get_unique_nicks feeds = Inr nicks"
    "get_ubuntu_members lp = Inr M"
    by (rule validate_memberships_result)
  from r(2) assms(2) have M: "M = set names" by (simp add: get_ubuntu_members_names)
  note run = v r
  from assms(4) have nf: "nick_of f = JStr []"
    by (auto simp: feed_get_def)
  have 3: "[] \<notin> nicks" by (simp add: nicks_to_check [OF r(1)])
  then have 2: "feed_outcome lp M nicks f = None"
    using nf by (simp add: feed_outcome_def outcome_def)
  then have "\<not> removable lp M nicks f" by (simp add: removable_def)
  with assms(3) have 1: "f \<in> set (valid_feeds v)" by (simp add: kept_iff [OF run])
  have 4: "[] \<notin> set (lookups (cats v))"
  proof -
    have "set (sorted_list_of_set nicks) = nicks"
      using get_unique_nicks_finite [OF r(1)] by simp
    moreover have "\<And>x. [] = lower x \<longleftrightarrow> x = []"
      using lower_Nil by (auto simp: eq_commute)
    ultimately show ?thesis using 3 by (auto simp: validate_lookups [OF run])
  qed
  have 5: "get_unique_nicks (filter (\<lambda>g. nick_of g \<noteq> JStr []) feeds) = Inr nicks"
    using r(1) unfolding get_unique_nicks_def by (rule get_unique_nicks_loop_skip_empty)
  from v r(1) 1 2 3 4 5 M show ?thesis by blast
qed

theorem empty_nick_kept_witness:
  "participants scen_lp = Some [''alice'']
   \<and> map_of feed_nonick ''nick'' = None
   \<and> map_of feed_emptynick ''nick'' = Some (JStr [])
   \<and> validate_memberships empty_feeds scen_lp = Inr empty_result
   \<and> get_unique_nicks empty_feeds = Inr {''bob''}
   \<and> feed_nonick \<in> set (valid_feeds empty_result)
   \<and> feed_emptynick \<in> set (valid_feeds empty_result)
   \<and> feed_outcome scen_lp (set [''alice'']) {''bob''} feed_nonick = None
   \<and> feed_outcome scen_lp (set [''alice'']) {''bob''} feed_emptynick = None
   \<and> [] \<notin> set (lookups (cats empty_result))
   \<and> get_unique_nicks (filter (\<lambda>g. nick_of g \<noteq> JStr []) empty_feeds) = Inr {''bob''}"
proof -
  have e1: "validate_memberships empty_feeds scen_lp = Inr empty_result"
    by code_simp
  have e2: "get_unique_nicks empty_feeds = Inr {''bob''}"
    by code_simp
  have h1: "\<forall>g\<in>set empty_feeds. lowerable (nick_of g) \<and> hashable (nick_of g)"
    by code_simp
  have h2: "participants scen_lp = Some [''alice'']"
    by (simp add: scen_lp_def)
  have a1: "feed_nonick \<in> set empty_feeds" and a2: "feed_emptynick \<in> set empty_feeds"
    by (simp_all add: empty_feeds_def)
  have n1: "map_of feed_nonick ''nick'' = None"
    by (simp add: feed_nonick_def)
  have n2: "map_of feed_emptynick ''nick'' = Some (JStr [])"
    by (simp add: feed_emptynick_def)
  from n1 have b1: "map_of feed_nonick ''nick'' = None \<or> map_of feed_nonick ''nick'' = Some (JStr [])"
    by (rule disjI1)
  from n2 have b2: "map_of feed_emptynick ''nick'' = None \<or> map_of feed_emptynick ''nick'' = Some (JStr [])"
    by (rule disjI2)
  from empty_nick_kept [OF h1 h2 a1 b1] obtain v nicks
    where v: "validate_memberships empty_feeds scen_lp = Inr v"
      and k: "get_unique_nicks empty_feeds = Inr nicks"
      and c: "feed_nonick \<in> set (valid_feeds v)"
        "feed_outcome scen_lp (set [''alice'']) nicks feed_nonick = None"
        "[] \<notin> set (lookups (cats v))"
        "get_unique_nicks (filter (\<lambda>g. nick_of g \<noteq> JStr []) empty_feeds) = Inr nicks"
    by blast
  from v e1 have v': "v = empty_result" by simp
  from k e2 have k': "nicks = {''bob''}" by (simp only: sum.inject)
  from empty_nick_kept [OF h1 h2 a2 b2] obtain w nicks2
    where w: "validate_memberships empty_feeds scen_lp = Inr w"
      and k2: "get_unique_nicks empty_feeds = Inr nicks2"
      and d: "feed_emptynick \<in> set (valid_feeds w)"
        "feed_outcome scen_lp (set [''alice'']) nicks2 feed_emptynick = None"
    by blast
  from w e1 have w': "w = empty_result" by simp
  from k2 e2 have k2': "nicks2 = {''bob''}" by (simp only: sum.inject)
  note c' = c [unfolded v' k']
  note d' = d [unfolded w' k2']
  show ?thesis
    by (intro conjI h2 n1 n2 e1 e2 c' d')
qed

end
